theory Spec2Isabelle
  imports Main "HOL-Library.Word"
begin

unbundle bit_operations_syntax

section \<open>Values and objects\<close>

text \<open>
  The decoding code of ttn-osem-integration works on plain JavaScript values. A value is
  \<open>undefined\<close>, \<open>null\<close>, a boolean, a number, a string or a reference to some other
  object (a \<open>Date\<close>, say). None of the functions modelled here does arithmetic on a
  measurement's value, so numbers are integers. Strict equality \<open>===\<close> on these values is
  equality of the terms (there is no \<open>NaN\<close>; two object references are equal when they are
  the same reference).
\<close>

datatype jsval = Undefined | Null | Bool bool | Num int | Str string | Obj nat

text \<open>What \<open>if (v)\<close>, \<open>!v\<close> and \<open>v && ...\<close> test.\<close>

fun truthy :: "jsval \<Rightarrow> bool" where
  "truthy Undefined = False"
| "truthy Null = False"
| "truthy (Bool b) = b"
| "truthy (Num n) = (n \<noteq> 0)"
| "truthy (Str s) = (s \<noteq> [])"
| "truthy (Obj r) = True"

text \<open>
  A measurement is an object \<open>{ sensor_id: ..., value: ... }\<close> that hooks may give further
  properties. It is modelled as a map from property names to values; reading a property
  that is not there gives \<open>undefined\<close>. Every entry of a measurement array is an object of
  its own, as \<open>bufferToMeasurements\<close> creates them.
\<close>

type_synonym measurement = "string \<rightharpoonup> jsval"

definition getp :: "measurement \<Rightarrow> string \<Rightarrow> jsval" where
  "getp m p = (case m p of None \<Rightarrow> Undefined | Some v \<Rightarrow> v)"

text \<open>The assignment \<open>m[p] = v\<close>.\<close>

definition setp :: "measurement \<Rightarrow> string \<Rightarrow> jsval \<Rightarrow> measurement" where
  "setp m p v = m(p \<mapsto> v)"

section \<open>lib/decoding/helpers.js\<close>

subsection \<open>bytesToInt\<close>

text \<open>
  \<^verbatim>\<open>let v = 0;
  for (let i = 0; i < bytes.length; i++) { v = v | Number(bytes[i] << (i * 8)); }
  return v;\<close>

  The bytes are those of a \<open>Buffer\<close>, each in \<open>0..255\<close>. JavaScript's \<open><<\<close> and \<open>|\<close>
  convert their operands to 32-bit integers, \<open><<\<close> takes the shift count modulo 32, and
  both give a signed 32-bit result; \<open>Number\<close> leaves it as it is. The accumulator is a
  32-bit word and the returned number is its two's complement reading.
\<close>

definition shl32 :: "32 word \<Rightarrow> nat \<Rightarrow> 32 word" where
  "shl32 x n = push_bit (n mod 32) x"

fun bytesToInt_loop :: "8 word list \<Rightarrow> nat \<Rightarrow> 32 word \<Rightarrow> 32 word" where
  "bytesToInt_loop [] i v = v"
| "bytesToInt_loop (b # bs) i v = bytesToInt_loop bs (i + 1) (v OR shl32 (ucast b) (i * 8))"

definition bytesToInt :: "8 word list \<Rightarrow> int" where
  "bytesToInt bytes = sint (bytesToInt_loop bytes 0 0)"

subsection \<open>findSensorIds\<close>

text \<open>
  A sensor of \<open>Box.sensors\<close> has an \<open>_id\<close> and descriptive string properties (\<open>title\<close>,
  \<open>sensorType\<close>, \<open>unit\<close>, ...). \<open>sensor[sensorProp]\<close> is the property of that name, the
  \<open>_id\<close> itself for the name \<open>_id\<close>, and \<open>undefined\<close> (here \<open>None\<close>) when there is none.
\<close>

record sensor =
  oid :: string
  attrs :: "string \<rightharpoonup> string"

definition sensorAt :: "sensor \<Rightarrow> string \<Rightarrow> string option" where
  "sensorAt sensor sensorProp = (if sensorProp = ''_id'' then Some (oid sensor) else attrs sensor sensorProp)"

text \<open>
  The characters of the strings. A JavaScript string is a sequence of UTF-16 code units;
  the strings of this model are those whose code units are below 256, so that a
  \<open>char\<close> is a code unit and stands for the character of Latin-1 with that code
  (\<open>CHR 0xC4\<close> is the capital A with diaeresis). Strings with other characters are not
  in the model.

  \<open>String.prototype.toLowerCase\<close> on these strings works character by character: the
  capital letters \<open>A\<close> to \<open>Z\<close> (codes 65 to 90) and the capital letters of Latin-1 (codes
  192 to 222 without the multiplication sign, 215) go to the letter 32 codes further on,
  and every other character is kept.
\<close>

definition lowerChar :: "char \<Rightarrow> char" where
  "lowerChar c =
     (let n = (of_char c :: nat)
      in if (65 \<le> n \<and> n \<le> 90) \<or> (192 \<le> n \<and> n \<le> 222 \<and> n \<noteq> 215)
         then char_of (n + 32)
         else c)"

definition toLowerCase :: "string \<Rightarrow> string" where
  "toLowerCase s = map lowerChar s"

text \<open>
  The matching spec \<open>sensorMatchings\<close> is an object of objects of alias arrays. \<open>for ... in\<close>
  visits the keys of an object in its enumeration order, so each level is the list of its
  (key, value) pairs in that order; the keys of one object are distinct.
\<close>

type_synonym sensorMatchings = "(string \<times> (string \<times> string list) list) list"

text \<open>
  The innermost loop \<open>for (const sensor of sensors)\<close>: a sensor whose property is falsy
  (missing or the empty string) is passed over with \<open>continue\<close>; the first sensor whose
  lower-cased property is among the aliases ends the loop with \<open>foundIt = true\<close> and its
  \<open>_id\<close> (here \<open>Some\<close> of it).
\<close>

fun scanSensors :: "string list \<Rightarrow> string \<Rightarrow> sensor list \<Rightarrow> string option" where
  "scanSensors aliases sensorProp [] = None"
| "scanSensors aliases sensorProp (sensor # rest) =
     (case sensorAt sensor sensorProp of
        None \<Rightarrow> scanSensors aliases sensorProp rest
      | Some v \<Rightarrow>
          if v = [] then scanSensors aliases sensorProp rest
          else if toLowerCase v \<in> set aliases then Some (oid sensor)
          else scanSensors aliases sensorProp rest)"

text \<open>
  The middle loop \<open>for (const sensorProp in sensorMatchings[phenomenon])\<close>, left with
  \<open>break\<close> as soon as one property did match.
\<close>

fun scanProps :: "sensor list \<Rightarrow> (string \<times> string list) list \<Rightarrow> string option" where
  "scanProps sensors [] = None"
| "scanProps sensors ((sensorProp, als) # rest) =
     (case scanSensors (map toLowerCase als) sensorProp sensors of
        Some i \<Rightarrow> Some i
      | None \<Rightarrow> scanProps sensors rest)"

text \<open>The outer loop \<open>for (const phenomenon in sensorMatchings)\<close> over the growing \<open>sensorMap\<close>.\<close>

fun findSensorIds_loop ::
  "sensor list \<Rightarrow> sensorMatchings \<Rightarrow> (string \<rightharpoonup> string) \<Rightarrow> (string \<rightharpoonup> string)" where
  "findSensorIds_loop sensors [] sensorMap = sensorMap"
| "findSensorIds_loop sensors ((phenomenon, props) # rest) sensorMap =
     findSensorIds_loop sensors rest
       (case scanProps sensors props of
          Some i \<Rightarrow> sensorMap(phenomenon \<mapsto> i)
        | None \<Rightarrow> sensorMap)"

definition findSensorIds :: "sensor list \<Rightarrow> sensorMatchings \<Rightarrow> (string \<rightharpoonup> string)" where
  "findSensorIds sensors sensorMatchings = findSensorIds_loop sensors sensorMatchings Map.empty"

subsection \<open>applyValueFromMeasurement\<close>

text \<open>
  The factory takes \<open>{ sensorId, property, transformer }\<close> and returns a hook that changes
  the measurement array in place; the model returns the array after the hook. The hook's
  \<open>for\<close> loop looks for the first measurement with \<open>sensor_id === sensorId\<close>, computes the
  value, removes the measurement with \<open>splice(k, 1)\<close>, runs the \<open>while\<close> loop from the same
  index and leaves with \<open>break\<close>.

  The \<open>while\<close> loop \<open>while (measurements[k] && measurements[k].sensor_id !== sensorId)
  measurements[k++][property] = value\<close> ends at the end of the array, where \<open>measurements[k]\<close>
  is \<open>undefined\<close>, or at the next measurement of \<open>sensorId\<close>.
\<close>

fun applyValue_while :: "string \<Rightarrow> string \<Rightarrow> jsval \<Rightarrow> measurement list \<Rightarrow> measurement list" where
  "applyValue_while sensorId property v [] = []"
| "applyValue_while sensorId property v (m # ms) =
     (if getp m ''sensor_id'' \<noteq> Str sensorId
      then setp m property v # applyValue_while sensorId property v ms
      else m # ms)"

fun applyValue_for ::
  "string \<Rightarrow> string \<Rightarrow> (jsval \<Rightarrow> jsval) option \<Rightarrow> measurement list \<Rightarrow> measurement list" where
  "applyValue_for sensorId property transformer [] = []"
| "applyValue_for sensorId property transformer (m # ms) =
     (if getp m ''sensor_id'' = Str sensorId
      then applyValue_while sensorId property
             (case transformer of Some f \<Rightarrow> f (getp m ''value'') | None \<Rightarrow> getp m ''value'') ms
      else m # applyValue_for sensorId property transformer ms)"

definition applyValueFromMeasurement ::
  "string \<Rightarrow> string \<Rightarrow> (jsval \<Rightarrow> jsval) option \<Rightarrow> measurement list \<Rightarrow> measurement list" where
  "applyValueFromMeasurement sensorId property transformer measurements =
     applyValue_for sensorId property transformer measurements"

section \<open>lib/decoding/index.js\<close>

subsection \<open>bufferToMeasurements\<close>

text \<open>
  An element of a \<open>bufferTransformer\<close>: the amount of bytes to consume, the \<open>sensor_id\<close> of
  the measurement, the function from the consumed bytes to the measurement's value, and
  the optional hook \<open>onResult\<close>, which receives the decoded measurements and may change
  them (\<open>None\<close> when \<open>typeof mask.onResult\<close> is not \<open>'function'\<close>). The amount of bytes is
  a count, a natural number.
\<close>

record mask =
  bytes :: nat
  sensorId :: string
  transformer :: "8 word list \<Rightarrow> jsval"
  onResult :: "(measurement list \<Rightarrow> measurement list) option"

text \<open>\<open>throw new Error(message)\<close>; inside the promise chain of \<open>decodeBuffer\<close> a rejection.\<close>

datatype error = Error string

text \<open>The decimal digits of a number, as the template literal \<open>${maskLength}\<close> writes them.\<close>

fun numToString :: "nat \<Rightarrow> string" where
  "numToString n =
     (if n < 10 then [''0123456789'' ! n]
      else numToString (n div 10) @ [''0123456789'' ! (n mod 10)])"

declare numToString.simps [simp del]

text \<open>\<open>buffer.slice(start, end)\<close> for offsets that are not negative: it stops at the buffer's end.\<close>

definition slice :: "'a list \<Rightarrow> nat \<Rightarrow> nat \<Rightarrow> 'a list" where
  "slice buffer start end = take (end - start) (drop start buffer)"

text \<open>
  The second loop: each element consumes its bytes from the running offset \<open>currByte\<close>
  and pushes \<open>{ sensor_id: mask.sensorId, value: mask.transformer(maskedBytes) }\<close> to
  \<open>result\<close>.
\<close>

fun decodeMasks :: "8 word list \<Rightarrow> mask list \<Rightarrow> nat \<Rightarrow> measurement list \<Rightarrow> measurement list" where
  "decodeMasks buffer [] currByte result = result"
| "decodeMasks buffer (msk # rest) currByte result =
     decodeMasks buffer rest (currByte + bytes msk)
       (result @ [[''sensor_id'' \<mapsto> Str (sensorId msk),
                   ''value'' \<mapsto> transformer msk (slice buffer currByte (currByte + bytes msk))]])"

text \<open>The third loop: every \<open>onResult\<close> hook, in the order of the elements, on the same array.\<close>

fun applyHooks :: "mask list \<Rightarrow> measurement list \<Rightarrow> measurement list" where
  "applyHooks [] result = result"
| "applyHooks (msk # rest) result =
     applyHooks rest (case onResult msk of Some hook \<Rightarrow> hook result | None \<Rightarrow> result)"

definition bufferToMeasurements :: "8 word list \<Rightarrow> mask list \<Rightarrow> error + measurement list" where
  "bufferToMeasurements buffer bufferTransformer =
     (let maskLength = foldl (\<lambda>l msk. l + bytes msk) 0 bufferTransformer
      in if maskLength \<noteq> length buffer
         then Inl (Error (''incorrect amount of bytes, should be '' @ numToString maskLength))
         else Inr (applyHooks bufferTransformer (decodeMasks buffer bufferTransformer 0 [])))"

subsection \<open>decodeBuffer\<close>

text \<open>
  A box with its TTN configuration \<open>box.integrations.ttn\<close>, of which \<open>decodeBuffer\<close> reads
  the name of the profile.
\<close>

record ttn_config =
  profile :: string

record integrations =
  ttn :: "ttn_config option"

record box =
  sensors :: "sensor list"
  integrations :: "integrations option"

text \<open>
  \<open>decodeBuffer\<close> looks the profile up in the table \<open>profiles\<close> of the profile modules
  (\<open>debug\<close>, \<open>lora-serialization\<close>, \<open>sensebox/home\<close>) and hands its result to
  \<open>transformAndValidateArray\<close> of the openSenseMap API. Both are parameters here: the
  table maps a profile's name to its \<open>createBufferTransformer\<close>, which may throw. The
  timestamp is \<open>undefined\<close> when the caller passes none.

  \<open>measurements.map(m => { m.createdAt = timestamp; return m; })\<close> sets the property on
  every measurement of the array.
\<close>

definition setCreatedAt :: "jsval \<Rightarrow> measurement list \<Rightarrow> measurement list" where
  "setCreatedAt timestamp measurements =
     (case measurements of
        [] \<Rightarrow> measurements
      | m0 # _ \<Rightarrow>
          if truthy timestamp \<and> \<not> truthy (getp m0 ''createdAt'')
          then map (\<lambda>m. setp m ''createdAt'' timestamp) measurements
          else measurements)"

definition decodeBuffer ::
  "(string \<rightharpoonup> (box \<Rightarrow> error + mask list)) \<Rightarrow> (measurement list \<Rightarrow> error + measurement list) \<Rightarrow>
   8 word list \<Rightarrow> box \<Rightarrow> jsval \<Rightarrow> error + measurement list" where
  "decodeBuffer profiles transformAndValidateArray buffer box timestamp =
     (case integrations box of
        None \<Rightarrow> Inl (Error ''box has no TTN configuration'')
      | Some ig \<Rightarrow>
         (case ttn ig of
            None \<Rightarrow> Inl (Error ''box has no TTN configuration'')
          | Some cfg \<Rightarrow>
             (case profiles (profile cfg) of
                None \<Rightarrow> Inl (Error (''profile '' @ [CHR 0x27] @ profile cfg @ [CHR 0x27] @ '' is not supported''))
              | Some createBufferTransformer \<Rightarrow>
                 (case createBufferTransformer box of
                    Inl e \<Rightarrow> Inl e
                  | Inr bufferTransformer \<Rightarrow>
                     (case bufferToMeasurements buffer bufferTransformer of
                        Inl e \<Rightarrow> Inl e
                      | Inr measurements \<Rightarrow>
                          transformAndValidateArray (setCreatedAt timestamp measurements))))))"

section \<open>The notions of the specification\<close>

text \<open>
  The value the specification gives for \<open>bytesToInt\<close>: the sum of \<open>byte[i] * 2^(8 * i)\<close>
  over the positions of the sequence.
\<close>

definition littleEndianSum :: "8 word list \<Rightarrow> nat" where
  "littleEndianSum bs = (\<Sum>i<length bs. unat (bs ! i) * 2 ^ (8 * i))"

text \<open>
  Equality of strings up to the case of their letters, said without lower-casing: two
  characters are the same letter when they are equal or one is a capital letter and the
  other the small letter that belongs to it, and two strings are equal up to case when
  they have the same length and the same letters at every position.
\<close>

definition sameLetter :: "char \<Rightarrow> char \<Rightarrow> bool" where
  "sameLetter c d =
     (let m = (of_char c :: nat); n = (of_char d :: nat)
      in c = d
         \<or> (n = m + 32 \<and> ((65 \<le> m \<and> m \<le> 90) \<or> (192 \<le> m \<and> m \<le> 222 \<and> m \<noteq> 215)))
         \<or> (m = n + 32 \<and> ((65 \<le> n \<and> n \<le> 90) \<or> (192 \<le> n \<and> n \<le> 222 \<and> n \<noteq> 215))))"

definition equalIgnoringCase :: "string \<Rightarrow> string \<Rightarrow> bool" where
  "equalIgnoringCase v a = list_all2 sameLetter v a"

text \<open>
  A sensor matches an attribute's alias list when its value for the attribute is there
  (truthy) and equals one of the aliases up to the case of the letters.
\<close>

definition matchesAlias :: "sensor \<Rightarrow> string \<Rightarrow> string list \<Rightarrow> bool" where
  "matchesAlias s p als =
     (case sensorAt s p of
        None \<Rightarrow> False
      | Some v \<Rightarrow> v \<noteq> [] \<and> (\<exists>a \<in> set als. equalIgnoringCase v a))"

text \<open>
  First match wins: the first attribute of the role, in the role's order, that any sensor
  matches, and for that attribute the first matching sensor of the list.
\<close>

definition resolveRole :: "sensor list \<Rightarrow> (string \<times> string list) list \<Rightarrow> string option" where
  "resolveRole ss props =
     (case List.find (\<lambda>(p, als). \<exists>s \<in> set ss. matchesAlias s p als) props of
        None \<Rightarrow> None
      | Some (p, als) \<Rightarrow> map_option oid (List.find (\<lambda>s. matchesAlias s p als) ss))"

text \<open>
  A carrier for a hook is a measurement of the hook's sensor; the value the hook
  propagates is the carrier's value, passed through the transform when there is one.
\<close>

definition isCarrier :: "string \<Rightarrow> measurement \<Rightarrow> bool" where
  "isCarrier sid m = (getp m ''sensor_id'' = Str sid)"

definition carrierValue :: "(jsval \<Rightarrow> jsval) option \<Rightarrow> measurement \<Rightarrow> jsval" where
  "carrierValue tr m = (case tr of Some f \<Rightarrow> f (getp m ''value'') | None \<Rightarrow> getp m ''value'')"

text \<open>
  The carrier matches found by a sequence of \<open>onResult\<close> hooks, each either missing or a
  propagation hook given by its \<open>(sensorId, property, transformer)\<close>: the hooks run one
  after the other, and a hook finds a match when the measurements it receives hold a
  carrier for it.
\<close>

fun carrierMatches ::
  "measurement list \<Rightarrow> (string \<times> string \<times> (jsval \<Rightarrow> jsval) option) option list \<Rightarrow> nat" where
  "carrierMatches ms [] = 0"
| "carrierMatches ms (None # hs) = carrierMatches ms hs"
| "carrierMatches ms (Some (sid, prop, tr) # hs) =
     (if \<exists>m \<in> set ms. isCarrier sid m then 1 else 0)
     + carrierMatches (applyValueFromMeasurement sid prop tr ms) hs"

definition propagationHook ::
  "(string \<times> string \<times> (jsval \<Rightarrow> jsval) option) option \<Rightarrow> (measurement list \<Rightarrow> measurement list) option" where
  "propagationHook h = map_option (\<lambda>(sid, prop, tr). applyValueFromMeasurement sid prop tr) h"

text \<open>The number a string of decimal digits stands for.\<close>

definition digitValue :: "char \<Rightarrow> nat" where
  "digitValue c = (case map_of (zip ''0123456789'' [0..<10]) c of Some d \<Rightarrow> d | None \<Rightarrow> 0)"

definition decimalValue :: "string \<Rightarrow> nat" where
  "decimalValue s = foldl (\<lambda>a c. 10 * a + digitValue c) 0 s"

text \<open>The measurement \<open>{ sensor_id: s, value: v }\<close> with a number as its value.\<close>

definition meas :: "string \<Rightarrow> int \<Rightarrow> measurement" where
  "meas s v = [''sensor_id'' \<mapsto> Str s, ''value'' \<mapsto> Num v]"

text \<open>
  Three sensors and a matching spec in the style of the example in the documentation of
  \<open>findSensorIds\<close>, for trying the matching on.
\<close>

definition exampleSensors :: "sensor list" where
  "exampleSensors =
     [\<lparr>oid = ''a'', attrs = [''title'' \<mapsto> ''Luftdruck'', ''sensorType'' \<mapsto> ''HDC1008'']\<rparr>,
      \<lparr>oid = ''b'', attrs = [''title'' \<mapsto> ''rel. Luftfeuchte'']\<rparr>,
      \<lparr>oid = ''c'', attrs = [''title'' \<mapsto> ''HUMIDITY'']\<rparr>]"

definition exampleMatchings :: sensorMatchings where
  "exampleMatchings =
     [(''humidity'', [(''title'', [''luftfeuchtigkeit'', ''Humidity'', ''rel. luftfeuchte'']),
                      (''sensorType'', [''hdc1008''])]),
      (''pressure'', [(''title'', [''luftdruck'', ''druck'', ''pressure''])])]"

section \<open>Reading a property after an assignment\<close>

lemma getp_setp: "getp (setp m p v) p = v"
  by (simp add: getp_def setp_def)

lemma getp_setp_other: "q \<noteq> p \<Longrightarrow> getp (setp m p v) q = getp m q"
  by (simp add: getp_def setp_def)

section \<open>bytesToInt: little-endian, as a signed 32-bit number\<close>

lemma or_bytes_eq_add:
  fixes a b c d :: "8 word"
  shows "(ucast a :: 32 word) OR push_bit 8 (ucast b) OR push_bit 16 (ucast c) OR push_bit 24 (ucast d)
   = ucast a + push_bit 8 (ucast b) + push_bit 16 (ucast c) + push_bit 24 (ucast d)"
proof -
  have 1: "(ucast a :: 32 word) + push_bit 8 (ucast b) = ucast a OR push_bit 8 (ucast b)"
    by (rule disjunctive_add) (auto simp: bit_simps dest: bit_imp_le_length)
  have 2: "((ucast a :: 32 word) OR push_bit 8 (ucast b)) + push_bit 16 (ucast c)
           = (ucast a OR push_bit 8 (ucast b)) OR push_bit 16 (ucast c)"
    by (rule disjunctive_add) (auto simp: bit_simps dest: bit_imp_le_length)
  have 3: "((ucast a :: 32 word) OR push_bit 8 (ucast b) OR push_bit 16 (ucast c)) + push_bit 24 (ucast d)
           = (ucast a OR push_bit 8 (ucast b) OR push_bit 16 (ucast c)) OR push_bit 24 (ucast d)"
    by (rule disjunctive_add) (auto simp: bit_simps dest: bit_imp_le_length)
  show ?thesis using 1 2 3 by (simp add: ac_simps)
qed

lemma add_bytes_eq_of_nat:
  fixes a b c d :: "8 word"
  shows "(ucast a :: 32 word) + push_bit 8 (ucast b) + push_bit 16 (ucast c) + push_bit 24 (ucast d)
  = word_of_nat (unat a + unat b * 2^8 + unat c * 2^16 + unat d * 2^24)"
  by (simp add: push_bit_eq_mult)

lemma unat_byte_less: "unat (a :: 8 word) < 256"
  using unsigned_less [of a, where 'a = nat] by simp

lemma sint_word_of_nat32:
  assumes n: "n < 2^32"
  shows "sint (word_of_nat n :: 32 word) = (if n < 2^31 then int n else int n - 2^32)"
proof -
  have s: "sint (word_of_nat n :: 32 word) = signed_take_bit 31 (int n)"
    using signed_of_nat [of n, where 'b = 32 and 'a = int] by simp
  show ?thesis
  proof (cases "n < 2^31")
    case True
    then have "signed_take_bit 31 (int n) = int n"
      by (intro signed_take_bit_int_eq_self) auto
    with True s show ?thesis by simp
  next
    case False
    have "signed_take_bit 31 (int n) = take_bit 32 (int n + 2^31) - 2^31"
      using signed_take_bit_eq_take_bit_shift [of 31 "int n"] by simp
    also have "take_bit 32 (int n + 2^31) = (int n + 2^31) mod 2^32"
      by (simp add: take_bit_eq_mod)
    also have "(int n + 2^31) mod 2^32 = int n + 2^31 - 2^32"
    proof -
      have "(int n - 2^31 + 2^32) mod 2^32 = (int n - 2^31) mod 2^32"
        by (rule mod_add_self2)
      also have "\<dots> = int n - 2^31"
        using False n by (intro mod_pos_pos_trivial) auto
      finally show ?thesis by (simp add: add.commute)
    qed
    finally show ?thesis using False s by simp
  qed
qed

lemma littleEndianSum4: "littleEndianSum [a, b, c, d] = unat a + unat b * 2^8 + unat c * 2^16 + unat d * 2^24"
  by (simp add: littleEndianSum_def lessThan_Suc)

lemma loop4: "bytesToInt_loop [a, b, c, d] 0 0 = word_of_nat (littleEndianSum [a, b, c, d])"
proof -
  have "bytesToInt_loop [a, b, c, d] 0 0
        = ((ucast a OR push_bit 8 (ucast b)) OR push_bit 16 (ucast c)) OR push_bit 24 (ucast d)"
    by (simp add: shl32_def)
  also have "\<dots> = ucast a OR push_bit 8 (ucast b) OR push_bit 16 (ucast c) OR push_bit 24 (ucast d)"
    by (simp only: or.assoc)
  also have "\<dots> = word_of_nat (littleEndianSum [a, b, c, d])"
    by (simp only: or_bytes_eq_add add_bytes_eq_of_nat littleEndianSum4)
  finally show ?thesis .
qed



lemma littleEndianSum4_less:
  "littleEndianSum [a, b, c, d] < 2^32"
  using unat_byte_less [of a] unat_byte_less [of b] unat_byte_less [of c] unat_byte_less [of d]
  by (simp add: littleEndianSum4)

lemma littleEndianSum4_small:
  "d < 0x80 \<Longrightarrow> littleEndianSum [a, b, c, d] < 2^31"
  using unat_byte_less [of a] unat_byte_less [of b] unat_byte_less [of c]
  by (simp add: littleEndianSum4 word_less_nat_alt)

lemma littleEndianSum4_big:
  "\<not> d < 0x80 \<Longrightarrow> \<not> littleEndianSum [a, b, c, d] < 2^31"
  by (simp add: littleEndianSum4 word_less_nat_alt)

lemma pad4:
  assumes "length bs \<le> 4"
  shows "\<exists>a b c d. bytesToInt_loop bs 0 0 = bytesToInt_loop [a, b, c, d] 0 0
    \<and> littleEndianSum bs = littleEndianSum [a, b, c, d]
    \<and> (length bs \<le> 3 \<longrightarrow> d = 0) \<and> (length bs = 4 \<longrightarrow> d = bs ! 3)"
proof -
  have "length bs = 0 \<or> length bs = Suc 0 \<or> length bs = Suc (Suc 0)
        \<or> length bs = Suc (Suc (Suc 0)) \<or> length bs = Suc (Suc (Suc (Suc 0)))"
    using assms by arith
  then consider "bs = []" | a where "bs = [a]" | a b where "bs = [a, b]"
    | a b c where "bs = [a, b, c]" | a b c d where "bs = [a, b, c, d]"
    by (auto simp: length_Suc_conv)
  then show ?thesis
  proof cases
    case 1
    show ?thesis
      by (intro exI [of _ 0]) (simp add: 1 shl32_def littleEndianSum_def lessThan_Suc)
  next
    case 2
    show ?thesis
      by (rule exI [of _ a], intro exI [of _ 0]) (simp add: 2 shl32_def littleEndianSum_def lessThan_Suc)
  next
    case 3
    show ?thesis
      by (rule exI [of _ a], rule exI [of _ b], intro exI [of _ 0])
        (simp add: 3 shl32_def littleEndianSum_def lessThan_Suc)
  next
    case 4
    show ?thesis
      by (rule exI [of _ a], rule exI [of _ b], rule exI [of _ c], rule exI [of _ 0])
        (simp add: 4 shl32_def littleEndianSum_def lessThan_Suc)
  next
    case 5
    show ?thesis
      by (rule exI [of _ a], rule exI [of _ b], rule exI [of _ c], rule exI [of _ d])
        (simp add: 5)
  qed
qed

lemma bytesToInt_signed:
  assumes "length bs \<le> 4"
  shows "bytesToInt bs = (if littleEndianSum bs < 2^31 then int (littleEndianSum bs) else int (littleEndianSum bs) - 2^32)"
proof -
  obtain a b c d where l: "bytesToInt_loop bs 0 0 = bytesToInt_loop [a, b, c, d] 0 0"
    and v: "littleEndianSum bs = littleEndianSum [a, b, c, d]"
    and "length bs \<le> 3 \<Longrightarrow> d = 0" and "length bs = 4 \<Longrightarrow> d = bs ! 3"
    using pad4 [OF assms] by blast
  have "bytesToInt bs = sint (word_of_nat (littleEndianSum [a, b, c, d]) :: 32 word)"
    by (simp only: bytesToInt_def l loop4)
  then show ?thesis
    by (simp only: v sint_word_of_nat32 [OF littleEndianSum4_less])
qed

lemma littleEndianSum_small:
  assumes "length bs \<le> 4" and "length bs = 4 \<Longrightarrow> bs ! 3 < 0x80"
  shows "littleEndianSum bs < 2^31"
proof -
  obtain a b c d where "bytesToInt_loop bs 0 0 = bytesToInt_loop [a, b, c, d] 0 0"
    and v: "littleEndianSum bs = littleEndianSum [a, b, c, d]"
    and d3: "length bs \<le> 3 \<Longrightarrow> d = 0" and d4: "length bs = 4 \<Longrightarrow> d = bs ! 3"
    using pad4 [OF assms(1)] by blast
  have "d < 0x80"
  proof (cases "length bs = 4")
    case True
    with d4 assms(2) show ?thesis by simp
  next
    case False
    with assms(1) have "length bs \<le> 3" by simp
    with d3 show ?thesis by simp
  qed
  then show ?thesis by (simp only: v littleEndianSum4_small)
qed

lemma littleEndianSum_big:
  assumes "length bs = 4" and "\<not> bs ! 3 < 0x80"
  shows "\<not> littleEndianSum bs < 2^31"
proof -
  have len: "length bs \<le> 4" using assms(1) by simp
  obtain a b c d where "bytesToInt_loop bs 0 0 = bytesToInt_loop [a, b, c, d] 0 0"
    and v: "littleEndianSum bs = littleEndianSum [a, b, c, d]"
    and "length bs \<le> 3 \<Longrightarrow> d = 0" and d4: "length bs = 4 \<Longrightarrow> d = bs ! 3"
    using pad4 [OF len] by blast
  from d4 assms have "\<not> d < 0x80" by simp
  then show ?thesis by (simp only: v littleEndianSum4_big not_False_eq_True)
qed

text \<open>
  C2 (as amended). For every byte sequence of at most four bytes, \<open>bytesToInt\<close> returns
  the little-endian sum of \<open>byte[i] * 2^(8 * i)\<close> read as a signed 32-bit number: the sum
  itself for one to three bytes and for four bytes whose last byte is below \<open>0x80\<close>, and
  the sum minus \<open>2^32\<close> for four bytes whose last byte is \<open>0x80\<close> or more. In particular
  \<open>bytesToInt([0x01]) = 1\<close>, \<open>bytesToInt([0xFF, 0x00]) = 255\<close> and
  \<open>bytesToInt([0x00, 0x01]) = 256\<close>.
\<close>

theorem bytesToInt_little_endian_int32:
  "length bs \<le> 4 \<Longrightarrow>
     bytesToInt bs = (if length bs = 4 \<and> 0x80 \<le> bs ! 3 then int (littleEndianSum bs) - 2^32 else int (littleEndianSum bs))
     \<and> bytesToInt [0x01] = 1 \<and> bytesToInt [0xFF, 0x00] = 255 \<and> bytesToInt [0x00, 0x01] = 256"
proof -
  assume len: "length bs \<le> 4"
  have ex: "bytesToInt [0x01] = 1 \<and> bytesToInt [0xFF, 0x00] = 255 \<and> bytesToInt [0x00, 0x01] = 256"
    by (simp add: bytesToInt_def shl32_def)
  have "bytesToInt bs = (if length bs = 4 \<and> 0x80 \<le> bs ! 3 then int (littleEndianSum bs) - 2^32 else int (littleEndianSum bs))"
  proof (cases "length bs = 4 \<and> 0x80 \<le> bs ! 3")
    case True
    then have "\<not> littleEndianSum bs < 2^31"
      by (intro littleEndianSum_big) (simp_all add: not_less)
    with True show ?thesis
      by (simp add: bytesToInt_signed [OF len])
  next
    case False
    then have "littleEndianSum bs < 2^31"
      by (intro littleEndianSum_small [OF len]) (auto simp: not_le)
    with False show ?thesis
      by (simp add: bytesToInt_signed [OF len])
  qed
  with ex show ?thesis by simp
qed

theorem bytesToInt_little_endian_int32_witness:
  "length [0x34, 0x12, 0x00, 0x80 :: 8 word] \<le> 4 \<and>
   bytesToInt [0x34, 0x12, 0x00, 0x80] = int (littleEndianSum [0x34, 0x12, 0x00, 0x80]) - 2^32 \<and>
   bytesToInt [0x34, 0x12] = int (littleEndianSum [0x34, 0x12]) \<and> bytesToInt [0x34, 0x12] = 4660"
  using bytesToInt_little_endian_int32 [of "[0x34, 0x12, 0x00, 0x80]"]
    bytesToInt_little_endian_int32 [of "[0x34, 0x12]"]
  by (simp add: littleEndianSum_def lessThan_Suc)

text \<open>
  The four bytes \<open>[0x00, 0x00, 0x00, 0x80]\<close> have the little-endian sum \<open>2^31\<close>, and
  \<open>bytesToInt\<close> returns \<open>-2^31\<close> for them: the result is not the unsigned sum.
\<close>

theorem bytesToInt_unsigned_counterexample:
  "length [0x00, 0x00, 0x00, 0x80 :: 8 word] = 4 \<and>
   littleEndianSum [0x00, 0x00, 0x00, 0x80] = 2147483648 \<and>
   bytesToInt [0x00, 0x00, 0x00, 0x80] = - 2147483648 \<and>
   bytesToInt [0x00, 0x00, 0x00, 0x80] \<noteq> int (littleEndianSum [0x00, 0x00, 0x00, 0x80])"
  by (simp add: bytesToInt_def shl32_def littleEndianSum_def lessThan_Suc)

section \<open>applyValueFromMeasurement: the first carrier and what follows it\<close>

lemma applyValue_for_no_carrier:
  "\<forall>m \<in> set ms. \<not> isCarrier sid m \<Longrightarrow> applyValue_for sid prop tr ms = ms"
  by (induction ms) (simp_all add: isCarrier_def)

lemma applyValue_while_eq:
  "applyValue_while sid prop v ms =
     map (\<lambda>m. setp m prop v) (takeWhile (\<lambda>m. \<not> isCarrier sid m) ms)
     @ dropWhile (\<lambda>m. \<not> isCarrier sid m) ms"
  by (induction ms) (simp_all add: isCarrier_def)

lemma applyValue_for_first_carrier:
  "k < length ms \<Longrightarrow> isCarrier sid (ms ! k) \<Longrightarrow> \<forall>j<k. \<not> isCarrier sid (ms ! j) \<Longrightarrow>
   applyValue_for sid prop tr ms =
     take k ms @ applyValue_while sid prop (carrierValue tr (ms ! k)) (drop (Suc k) ms)"
proof (induction ms arbitrary: k)
  case Nil
  then show ?case by simp
next
  case (Cons m ms)
  show ?case
  proof (cases k)
    case 0
    with Cons.prems show ?thesis
      by (simp add: isCarrier_def carrierValue_def)
  next
    case (Suc n)
    from Cons.prems Suc have m: "\<not> isCarrier sid m" by auto
    from Cons.prems Suc have "n < length ms" "isCarrier sid (ms ! n)" "\<forall>j<n. \<not> isCarrier sid (ms ! j)"
      by auto
    then have "applyValue_for sid prop tr ms =
      take n ms @ applyValue_while sid prop (carrierValue tr (ms ! n)) (drop (Suc n) ms)"
      by (rule Cons.IH)
    with m Suc show ?thesis by (simp add: isCarrier_def)
  qed
qed

lemma length_applyValue_while: "length (applyValue_while sid prop v ms) = length ms"
  by (induction ms) simp_all

lemma length_applyValue_for:
  "length (applyValue_for sid prop tr ms) + (if \<exists>m \<in> set ms. isCarrier sid m then 1 else 0) = length ms"
  by (induction ms) (auto simp: isCarrier_def length_applyValue_while split: if_splits)


lemma applyValueFromMeasurement_shape:
  assumes "k < length ms" and "isCarrier sid (ms ! k)" and "\<forall>j<k. \<not> isCarrier sid (ms ! j)"
  shows "applyValueFromMeasurement sid prop tr ms =
     take k ms
     @ map (\<lambda>m. setp m prop (carrierValue tr (ms ! k)))
         (takeWhile (\<lambda>m. \<not> isCarrier sid m) (drop (Suc k) ms))
     @ dropWhile (\<lambda>m. \<not> isCarrier sid m) (drop (Suc k) ms)"
proof -
  have "applyValue_for sid prop tr ms =
     take k ms @ applyValue_while sid prop (carrierValue tr (ms ! k)) (drop (Suc k) ms)"
    using assms by (rule applyValue_for_first_carrier)
  then show ?thesis
    by (simp only: applyValueFromMeasurement_def applyValue_while_eq)
qed

lemma propagation_shape_nth_annotated:
  assumes k: "k < length ms" and i: "k \<le> i" "i < k + length (takeWhile P (drop (Suc k) ms))"
  shows "(take k ms @ map g (takeWhile P (drop (Suc k) ms)) @ dropWhile P (drop (Suc k) ms)) ! i
         = g (ms ! Suc i)"
proof -
  let ?rest = "drop (Suc k) ms"
  have j: "i - k < length (takeWhile P ?rest)" using i by simp
  also have "\<dots> \<le> length ?rest" by (rule length_takeWhile_le)
  finally have r: "i - k < length ?rest" .
  have "(take k ms @ map g (takeWhile P ?rest) @ dropWhile P ?rest) ! i
        = (map g (takeWhile P ?rest) @ dropWhile P ?rest) ! (i - k)"
    using k i by (simp add: nth_append)
  also have "\<dots> = g (takeWhile P ?rest ! (i - k))"
    using j by (simp add: nth_append)
  also have "takeWhile P ?rest ! (i - k) = ?rest ! (i - k)"
    using j by (rule takeWhile_nth)
  also have "?rest ! (i - k) = ms ! Suc i"
    using r i by simp
  finally show ?thesis .
qed

lemma propagation_shape_nth_untouched:
  assumes k: "k < length ms" and i: "k + length (takeWhile P (drop (Suc k) ms)) \<le> i" "Suc i < length ms"
  shows "(take k ms @ map g (takeWhile P (drop (Suc k) ms)) @ dropWhile P (drop (Suc k) ms)) ! i
         = ms ! Suc i"
proof -
  let ?rest = "drop (Suc k) ms"
  let ?t = "length (takeWhile P ?rest)"
  have ki: "k \<le> i" using i by simp
  have r: "i - k < length ?rest" using i ki by simp
  have d: "i - k - ?t < length (dropWhile P ?rest)"
    using r i by (simp add: dropWhile_eq_drop)
  have "(take k ms @ map g (takeWhile P ?rest) @ dropWhile P ?rest) ! i
        = (map g (takeWhile P ?rest) @ dropWhile P ?rest) ! (i - k)"
    using k ki by (simp add: nth_append)
  also have "\<dots> = dropWhile P ?rest ! (i - k - ?t)"
    using i by (simp add: nth_append)
  also have "\<dots> = ?rest ! (i - k - ?t + ?t)"
    using d by (rule dropWhile_nth)
  also have "\<dots> = ms ! Suc i"
    using r i by simp
  finally show ?thesis .
qed

text \<open>
  C3. A hook built for \<open>sid\<close>, \<open>prop\<close> and the optional transform \<open>tr\<close> leaves a
  sequence without a measurement of \<open>sid\<close> as it is. Otherwise, with \<open>k\<close> the index of the
  first such measurement (the carrier), it removes the carrier, so that the result is one
  entry shorter and the entries before \<open>k\<close> are untouched. From the vacated index \<open>k\<close> on,
  for as many entries as follow the carrier without being measurements of \<open>sid\<close>, the
  entry is the one that followed in the input with \<open>prop\<close> assigned: reading \<open>prop\<close> from
  it gives the carrier's value (transformed when there is a transform), and reading any
  other property gives what the input entry had. The entries behind those, the next
  measurement of \<open>sid\<close> first, are the input's entries unchanged, so only the first carrier
  is processed. A carrier that is the last measurement is removed and nothing else changes.
\<close>

theorem propagation_first_carrier:
  "((\<forall>m \<in> set ms. \<not> isCarrier sid m) \<longrightarrow> applyValueFromMeasurement sid prop tr ms = ms)
   \<and> (k < length ms \<and> isCarrier sid (ms ! k) \<and> (\<forall>j<k. \<not> isCarrier sid (ms ! j)) \<longrightarrow>
        applyValueFromMeasurement sid prop tr ms =
          take k ms
          @ map (\<lambda>m. setp m prop (carrierValue tr (ms ! k)))
              (takeWhile (\<lambda>m. \<not> isCarrier sid m) (drop (Suc k) ms))
          @ dropWhile (\<lambda>m. \<not> isCarrier sid m) (drop (Suc k) ms)
        \<and> Suc (length (applyValueFromMeasurement sid prop tr ms)) = length ms
        \<and> (\<forall>i<k. applyValueFromMeasurement sid prop tr ms ! i = ms ! i)
        \<and> (\<forall>i. k \<le> i \<and> i < k + length (takeWhile (\<lambda>m. \<not> isCarrier sid m) (drop (Suc k) ms)) \<longrightarrow>
              getp (applyValueFromMeasurement sid prop tr ms ! i) prop
                = (case tr of None \<Rightarrow> getp (ms ! k) ''value'' | Some f \<Rightarrow> f (getp (ms ! k) ''value''))
              \<and> (\<forall>q. q \<noteq> prop \<longrightarrow>
                    getp (applyValueFromMeasurement sid prop tr ms ! i) q = getp (ms ! Suc i) q))
        \<and> (\<forall>i. k + length (takeWhile (\<lambda>m. \<not> isCarrier sid m) (drop (Suc k) ms)) \<le> i
                \<and> Suc i < length ms \<longrightarrow>
              applyValueFromMeasurement sid prop tr ms ! i = ms ! Suc i))
   \<and> (isCarrier sid c \<and> (\<forall>m \<in> set pre. \<not> isCarrier sid m) \<longrightarrow>
        applyValueFromMeasurement sid prop tr (pre @ [c]) = pre)"
proof (intro conjI impI)
  assume "\<forall>m \<in> set ms. \<not> isCarrier sid m"
  then show "applyValueFromMeasurement sid prop tr ms = ms"
    by (simp add: applyValueFromMeasurement_def applyValue_for_no_carrier)
next
  assume a: "k < length ms \<and> isCarrier sid (ms ! k) \<and> (\<forall>j<k. \<not> isCarrier sid (ms ! j))"
  then have k: "k < length ms" by simp
  let ?P = "\<lambda>m. \<not> isCarrier sid m"
  let ?g = "\<lambda>m. setp m prop (carrierValue tr (ms ! k))"
  show shape: "applyValueFromMeasurement sid prop tr ms =
          take k ms @ map ?g (takeWhile ?P (drop (Suc k) ms)) @ dropWhile ?P (drop (Suc k) ms)"
    using a by (intro applyValueFromMeasurement_shape) simp_all
  have "length (takeWhile ?P (drop (Suc k) ms)) + length (dropWhile ?P (drop (Suc k) ms))
        = length (drop (Suc k) ms)"
    by (metis length_append takeWhile_dropWhile_id)
  then show "Suc (length (applyValueFromMeasurement sid prop tr ms)) = length ms"
    using k by (simp add: shape)
  show "\<forall>i<k. applyValueFromMeasurement sid prop tr ms ! i = ms ! i"
    using k by (simp add: shape nth_append)
  show "\<forall>i. k \<le> i \<and> i < k + length (takeWhile ?P (drop (Suc k) ms)) \<longrightarrow>
              getp (applyValueFromMeasurement sid prop tr ms ! i) prop
                = (case tr of None \<Rightarrow> getp (ms ! k) ''value'' | Some f \<Rightarrow> f (getp (ms ! k) ''value''))
              \<and> (\<forall>q. q \<noteq> prop \<longrightarrow>
                    getp (applyValueFromMeasurement sid prop tr ms ! i) q = getp (ms ! Suc i) q)"
  proof (intro allI impI)
    fix i assume "k \<le> i \<and> i < k + length (takeWhile ?P (drop (Suc k) ms))"
    then have i: "k \<le> i" "i < k + length (takeWhile ?P (drop (Suc k) ms))" by simp_all
    have e: "applyValueFromMeasurement sid prop tr ms ! i = ?g (ms ! Suc i)"
      unfolding shape using k i by (rule propagation_shape_nth_annotated)
    have v: "carrierValue tr (ms ! k)
             = (case tr of None \<Rightarrow> getp (ms ! k) ''value'' | Some f \<Rightarrow> f (getp (ms ! k) ''value''))"
      by (simp add: carrierValue_def split: option.splits)
    show "getp (applyValueFromMeasurement sid prop tr ms ! i) prop
                = (case tr of None \<Rightarrow> getp (ms ! k) ''value'' | Some f \<Rightarrow> f (getp (ms ! k) ''value''))
              \<and> (\<forall>q. q \<noteq> prop \<longrightarrow>
                    getp (applyValueFromMeasurement sid prop tr ms ! i) q = getp (ms ! Suc i) q)"
      by (simp only: e getp_setp v) (simp add: getp_setp_other)
  qed
  show "\<forall>i. k + length (takeWhile ?P (drop (Suc k) ms)) \<le> i \<and> Suc i < length ms \<longrightarrow>
              applyValueFromMeasurement sid prop tr ms ! i = ms ! Suc i"
  proof (intro allI impI)
    fix i assume "k + length (takeWhile ?P (drop (Suc k) ms)) \<le> i \<and> Suc i < length ms"
    then have i: "k + length (takeWhile ?P (drop (Suc k) ms)) \<le> i" "Suc i < length ms" by simp_all
    show "applyValueFromMeasurement sid prop tr ms ! i = ms ! Suc i"
      unfolding shape using k i by (rule propagation_shape_nth_untouched)
  qed
next
  assume a: "isCarrier sid c \<and> (\<forall>m \<in> set pre. \<not> isCarrier sid m)"
  have "applyValueFromMeasurement sid prop tr (pre @ [c]) =
          take (length pre) (pre @ [c])
          @ map (\<lambda>m. setp m prop (carrierValue tr ((pre @ [c]) ! length pre)))
              (takeWhile (\<lambda>m. \<not> isCarrier sid m) (drop (Suc (length pre)) (pre @ [c])))
          @ dropWhile (\<lambda>m. \<not> isCarrier sid m) (drop (Suc (length pre)) (pre @ [c]))"
    using a by (intro applyValueFromMeasurement_shape) (auto simp: nth_append)
  then show "applyValueFromMeasurement sid prop tr (pre @ [c]) = pre"
    by simp
qed

theorem propagation_first_carrier_witness:
  "\<not> isCarrier ''t'' (meas ''x'' 5) \<and> \<not> isCarrier ''t'' (meas ''y'' 6)
   \<and> applyValueFromMeasurement ''t'' ''createdAt'' None [meas ''x'' 5, meas ''y'' 6] = [meas ''x'' 5, meas ''y'' 6]
   \<and> isCarrier ''t'' ([meas ''x'' 5, meas ''t'' 100, meas ''y'' 6, meas ''t'' 200, meas ''z'' 7] ! 1)
   \<and> length (takeWhile (\<lambda>m. \<not> isCarrier ''t'' m)
        (drop (Suc 1) [meas ''x'' 5, meas ''t'' 100, meas ''y'' 6, meas ''t'' 200, meas ''z'' 7])) = 1
   \<and> length (applyValueFromMeasurement ''t'' ''createdAt'' (Some (\<lambda>v. case v of Num n \<Rightarrow> Num (n * 1000) | _ \<Rightarrow> v))
        [meas ''x'' 5, meas ''t'' 100, meas ''y'' 6, meas ''t'' 200, meas ''z'' 7]) = 4
   \<and> applyValueFromMeasurement ''t'' ''createdAt'' (Some (\<lambda>v. case v of Num n \<Rightarrow> Num (n * 1000) | _ \<Rightarrow> v))
        [meas ''x'' 5, meas ''t'' 100, meas ''y'' 6, meas ''t'' 200, meas ''z'' 7] ! 0 = meas ''x'' 5
   \<and> getp (applyValueFromMeasurement ''t'' ''createdAt'' (Some (\<lambda>v. case v of Num n \<Rightarrow> Num (n * 1000) | _ \<Rightarrow> v))
        [meas ''x'' 5, meas ''t'' 100, meas ''y'' 6, meas ''t'' 200, meas ''z'' 7] ! 1) ''createdAt'' = Num 100000
   \<and> getp (applyValueFromMeasurement ''t'' ''createdAt'' (Some (\<lambda>v. case v of Num n \<Rightarrow> Num (n * 1000) | _ \<Rightarrow> v))
        [meas ''x'' 5, meas ''t'' 100, meas ''y'' 6, meas ''t'' 200, meas ''z'' 7] ! 1) ''sensor_id'' = Str ''y''
   \<and> getp (applyValueFromMeasurement ''t'' ''createdAt'' (Some (\<lambda>v. case v of Num n \<Rightarrow> Num (n * 1000) | _ \<Rightarrow> v))
        [meas ''x'' 5, meas ''t'' 100, meas ''y'' 6, meas ''t'' 200, meas ''z'' 7] ! 1) ''value'' = Num 6
   \<and> applyValueFromMeasurement ''t'' ''createdAt'' (Some (\<lambda>v. case v of Num n \<Rightarrow> Num (n * 1000) | _ \<Rightarrow> v))
        [meas ''x'' 5, meas ''t'' 100, meas ''y'' 6, meas ''t'' 200, meas ''z'' 7] ! 2 = meas ''t'' 200
   \<and> applyValueFromMeasurement ''t'' ''createdAt'' (Some (\<lambda>v. case v of Num n \<Rightarrow> Num (n * 1000) | _ \<Rightarrow> v))
        [meas ''x'' 5, meas ''t'' 100, meas ''y'' 6, meas ''t'' 200, meas ''z'' 7] ! 3 = meas ''z'' 7
   \<and> getp (meas ''z'' 7) ''createdAt'' = Undefined
   \<and> applyValueFromMeasurement ''t'' ''createdAt'' None ([meas ''x'' 5] @ [meas ''t'' 100]) = [meas ''x'' 5]"
proof -
  let ?ms = "[meas ''x'' 5, meas ''t'' 100, meas ''y'' 6, meas ''t'' 200, meas ''z'' 7]"
  let ?tr = "Some (\<lambda>v. case v of Num n \<Rightarrow> Num (n * 1000) | _ \<Rightarrow> v)"
  let ?out = "applyValueFromMeasurement ''t'' ''createdAt'' ?tr ?ms"
  have nx: "\<not> isCarrier ''t'' (meas ''x'' 5)" and ny: "\<not> isCarrier ''t'' (meas ''y'' 6)"
    and ct: "isCarrier ''t'' (meas ''t'' 100)" and ct2: "isCarrier ''t'' (meas ''t'' 200)"
    by (simp_all add: isCarrier_def getp_def meas_def)
  have n: "length (takeWhile (\<lambda>m. \<not> isCarrier ''t'' m) (drop (Suc 1) ?ms)) = 1"
    using ny ct2 by simp
  have h: "1 < length ?ms \<and> isCarrier ''t'' (?ms ! 1) \<and> (\<forall>j<1. \<not> isCarrier ''t'' (?ms ! j))"
    using nx ct by simp
  note t = propagation_first_carrier [of ?ms "''t''" "''createdAt''" ?tr 1 "meas ''t'' 100" "[meas ''x'' 5]"]
  from t have t1: "(\<forall>m \<in> set ?ms. \<not> isCarrier ''t'' m) \<longrightarrow> ?out = ?ms"
    and t2: "1 < length ?ms \<and> isCarrier ''t'' (?ms ! 1) \<and> (\<forall>j<1. \<not> isCarrier ''t'' (?ms ! j)) \<longrightarrow>
        ?out = take 1 ?ms
          @ map (\<lambda>m. setp m ''createdAt'' (carrierValue ?tr (?ms ! 1)))
              (takeWhile (\<lambda>m. \<not> isCarrier ''t'' m) (drop (Suc 1) ?ms))
          @ dropWhile (\<lambda>m. \<not> isCarrier ''t'' m) (drop (Suc 1) ?ms)
        \<and> Suc (length ?out) = length ?ms
        \<and> (\<forall>i<1. ?out ! i = ?ms ! i)
        \<and> (\<forall>i. 1 \<le> i \<and> i < 1 + length (takeWhile (\<lambda>m. \<not> isCarrier ''t'' m) (drop (Suc 1) ?ms)) \<longrightarrow>
              getp (?out ! i) ''createdAt''
                = (case ?tr of None \<Rightarrow> getp (?ms ! 1) ''value'' | Some f \<Rightarrow> f (getp (?ms ! 1) ''value''))
              \<and> (\<forall>q. q \<noteq> ''createdAt'' \<longrightarrow> getp (?out ! i) q = getp (?ms ! Suc i) q))
        \<and> (\<forall>i. 1 + length (takeWhile (\<lambda>m. \<not> isCarrier ''t'' m) (drop (Suc 1) ?ms)) \<le> i
                \<and> Suc i < length ?ms \<longrightarrow> ?out ! i = ?ms ! Suc i)"
    and t3: "isCarrier ''t'' (meas ''t'' 100) \<and> (\<forall>m \<in> set [meas ''x'' 5]. \<not> isCarrier ''t'' m) \<longrightarrow>
        applyValueFromMeasurement ''t'' ''createdAt'' ?tr ([meas ''x'' 5] @ [meas ''t'' 100]) = [meas ''x'' 5]"
    by blast+
  from t2 h have l: "Suc (length ?out) = length ?ms"
    and b: "\<forall>i<1. ?out ! i = ?ms ! i"
    and g: "\<forall>i. 1 \<le> i \<and> i < 1 + length (takeWhile (\<lambda>m. \<not> isCarrier ''t'' m) (drop (Suc 1) ?ms)) \<longrightarrow>
              getp (?out ! i) ''createdAt''
                = (case ?tr of None \<Rightarrow> getp (?ms ! 1) ''value'' | Some f \<Rightarrow> f (getp (?ms ! 1) ''value''))
              \<and> (\<forall>q. q \<noteq> ''createdAt'' \<longrightarrow> getp (?out ! i) q = getp (?ms ! Suc i) q)"
    and u: "\<forall>i. 1 + length (takeWhile (\<lambda>m. \<not> isCarrier ''t'' m) (drop (Suc 1) ?ms)) \<le> i
                \<and> Suc i < length ?ms \<longrightarrow> ?out ! i = ?ms ! Suc i"
    by blast+
  from l have r1: "length ?out = 4" by simp
  from b have r2: "?out ! 0 = meas ''x'' 5" by simp
  have i1: "(1::nat) \<le> 1
      \<and> (1::nat) < 1 + length (takeWhile (\<lambda>m. \<not> isCarrier ''t'' m) (drop (Suc 1) ?ms))"
    unfolding n by simp
  have i2: "1 + length (takeWhile (\<lambda>m. \<not> isCarrier ''t'' m) (drop (Suc 1) ?ms)) \<le> 2
      \<and> Suc 2 < length ?ms"
    unfolding n by simp
  have i3: "1 + length (takeWhile (\<lambda>m. \<not> isCarrier ''t'' m) (drop (Suc 1) ?ms)) \<le> 3
      \<and> Suc 3 < length ?ms"
    unfolding n by simp
  from g [rule_format, OF i1]
  have g1: "getp (?out ! 1) ''createdAt''
                = (case ?tr of None \<Rightarrow> getp (?ms ! 1) ''value'' | Some f \<Rightarrow> f (getp (?ms ! 1) ''value''))"
    and g2: "\<forall>q. q \<noteq> ''createdAt'' \<longrightarrow> getp (?out ! 1) q = getp (?ms ! Suc 1) q"
    by blast+
  from g1 have r3: "getp (?out ! 1) ''createdAt'' = Num 100000"
    by (simp add: getp_def meas_def)
  from g2 [rule_format, of "''sensor_id''"] have r4: "getp (?out ! 1) ''sensor_id'' = Str ''y''"
    by (simp add: getp_def meas_def)
  from g2 [rule_format, of "''value''"] have r5: "getp (?out ! 1) ''value'' = Num 6"
    by (simp add: getp_def meas_def)
  from u [rule_format, OF i2] have r6: "?out ! 2 = meas ''t'' 200" by simp
  from u [rule_format, OF i3] have r7: "?out ! 3 = meas ''z'' 7" by simp
  have r8: "getp (meas ''z'' 7) ''createdAt'' = Undefined"
    by (simp add: getp_def meas_def)
  have r0: "applyValueFromMeasurement ''t'' ''createdAt'' None [meas ''x'' 5, meas ''y'' 6] = [meas ''x'' 5, meas ''y'' 6]"
    using propagation_first_carrier [of "[meas ''x'' 5, meas ''y'' 6]" "''t''" "''createdAt''" None 0 "meas ''t'' 100" "[meas ''x'' 5]"]
      nx ny by simp
  have r9: "applyValueFromMeasurement ''t'' ''createdAt'' None ([meas ''x'' 5] @ [meas ''t'' 100]) = [meas ''x'' 5]"
    using propagation_first_carrier [of "[meas ''x'' 5, meas ''y'' 6]" "''t''" "''createdAt''" None 0 "meas ''t'' 100" "[meas ''x'' 5]"]
      nx ct by simp
  have c1: "isCarrier ''t'' (?ms ! 1)" using ct by simp
  from nx ny r0 c1 n r1 r2 r3 r4 r5 r6 r7 r8 r9 show ?thesis by (intro conjI)
qed

text \<open>
  C4 (as amended). The hook for carrier \<open>'t'\<close> and attribute \<open>'createdAt'\<close>, applied once to
  \<open>[{t, 100}, {x, 5}, {t, 200}, {y, 6}]\<close>, yields \<open>[{x, 5, createdAt: 100}, {t, 200}, {y, 6}]\<close>:
  the second carrier is not consumed and remains a measurement, and \<open>y\<close> behind it is not
  stamped.
\<close>

theorem propagation_example_stops_at_second_carrier:
  "applyValueFromMeasurement ''t'' ''createdAt'' None
     [meas ''t'' 100, meas ''x'' 5, meas ''t'' 200, meas ''y'' 6]
   = [setp (meas ''x'' 5) ''createdAt'' (Num 100), meas ''t'' 200, meas ''y'' 6]"
  by (simp add: applyValueFromMeasurement_def getp_def meas_def)

text \<open>
  The sequence the hook returns is not the one with \<open>createdAt: 100\<close> on \<open>y\<close> as well.
\<close>

theorem propagation_example_counterexample:
  "applyValueFromMeasurement ''t'' ''createdAt'' None
     [meas ''t'' 100, meas ''x'' 5, meas ''t'' 200, meas ''y'' 6]
   \<noteq> [setp (meas ''x'' 5) ''createdAt'' (Num 100), meas ''t'' 200,
       setp (meas ''y'' 6) ''createdAt'' (Num 100)]"
proof -
  have "meas ''y'' 6 ''createdAt'' \<noteq> setp (meas ''y'' 6) ''createdAt'' (Num 100) ''createdAt''"
    by (simp add: meas_def setp_def)
  then have "meas ''y'' 6 \<noteq> setp (meas ''y'' 6) ''createdAt'' (Num 100)"
    by metis
  then show ?thesis
    by (simp add: applyValueFromMeasurement_def getp_def meas_def)
qed

section \<open>applyValueFromMeasurement: the order of the measurements\<close>

lemma propagation_shape_length:
  assumes "k < length ms"
  shows "Suc (length (take k ms @ map g (takeWhile P (drop (Suc k) ms)) @ dropWhile P (drop (Suc k) ms)))
         = length ms"
proof -
  have "length (takeWhile P (drop (Suc k) ms)) + length (dropWhile P (drop (Suc k) ms))
        = length (drop (Suc k) ms)"
    by (metis length_append takeWhile_dropWhile_id)
  then show ?thesis using assms by simp
qed

lemma propagation_shape_nth_before:
  assumes "k < length ms" and "i < k"
  shows "(take k ms @ ys) ! i = ms ! i"
  using assms by (simp add: nth_append)

lemma propagation_shape_nth_after:
  fixes P :: "'a \<Rightarrow> bool" and g :: "'a \<Rightarrow> 'a"
  assumes k: "k < length ms" and i: "k \<le> i" "Suc i < length ms"
  shows "(take k ms @ map g (takeWhile P (drop (Suc k) ms)) @ dropWhile P (drop (Suc k) ms)) ! i = ms ! Suc i
    \<or> ((take k ms @ map g (takeWhile P (drop (Suc k) ms)) @ dropWhile P (drop (Suc k) ms)) ! i = g (ms ! Suc i)
       \<and> (\<forall>n. k < n \<and> n \<le> Suc i \<longrightarrow> P (ms ! n)))"
proof -
  define rest where "rest = drop (Suc k) ms"
  define out where "out = take k ms @ map g (takeWhile P rest) @ dropWhile P rest"
  define j where "j = i - k"
  define t where "t = length (takeWhile P rest)"
  have lr: "length rest = length ms - Suc k" by (simp add: rest_def)
  have jr: "j < length rest" using i k by (simp add: j_def lr)
  have restj: "\<And>n. n < length rest \<Longrightarrow> rest ! n = ms ! (Suc k + n)"
    using k by (simp add: rest_def)
  have outi: "out ! i = (map g (takeWhile P rest) @ dropWhile P rest) ! j"
    using i k by (simp add: out_def nth_append j_def)
  show ?thesis
  proof (cases "j < t")
    case True
    then have "out ! i = g (takeWhile P rest ! j)"
      by (simp add: outi nth_append t_def)
    also have "takeWhile P rest ! j = rest ! j"
      using True by (simp add: takeWhile_nth t_def)
    also have "rest ! j = ms ! Suc i"
      using restj [OF jr] i by (simp add: j_def)
    finally have 1: "out ! i = g (ms ! Suc i)" .
    have 2: "P (ms ! n)" if "k < n" "n \<le> Suc i" for n
    proof -
      define j' where "j' = n - Suc k"
      have j't: "j' < t" using that True by (simp add: j'_def j_def)
      then have "takeWhile P rest ! j' \<in> set (takeWhile P rest)"
        by (simp add: t_def)
      then have "P (takeWhile P rest ! j')"
        by (auto dest: set_takeWhileD)
      moreover have "takeWhile P rest ! j' = rest ! j'"
        using j't by (simp add: takeWhile_nth t_def)
      moreover have "j' < length rest"
        using j't length_takeWhile_le [of P rest] by (simp add: t_def)
      then have "rest ! j' = ms ! (Suc k + j')" by (rule restj)
      moreover have "Suc k + j' = n" using that by (simp add: j'_def)
      ultimately show ?thesis by simp
    qed
    from 1 2 show ?thesis unfolding out_def rest_def by blast
  next
    case False
    then have "out ! i = dropWhile P rest ! (j - t)"
      by (simp add: outi nth_append t_def)
    also have "j - t < length (dropWhile P rest)"
      using jr False by (simp add: dropWhile_eq_drop t_def)
    then have "dropWhile P rest ! (j - t) = rest ! (j - t + t)"
      unfolding t_def by (rule dropWhile_nth)
    also have "rest ! (j - t + t) = ms ! Suc i"
      using restj [OF jr] False i by (simp add: j_def)
    finally show ?thesis unfolding out_def rest_def by simp
  qed
qed


text \<open>
  C7. A propagation hook never reorders measurements. Without a carrier the sequence
  stays as it is. With the first carrier at index \<open>k\<close>, the result is one entry shorter:
  the entries before \<open>k\<close> keep their places, and every entry behind the carrier moves up
  by one place, so the entries that remain are in their old order and the only entry
  removed is the carrier. An entry that remains is either unchanged or has the attribute
  set; an annotated entry lies behind the carrier with no measurement of the carrier's
  sensor between the carrier and itself.
\<close>

theorem propagation_keeps_order:
  "((\<forall>m \<in> set ms. \<not> isCarrier sid m) \<longrightarrow> applyValueFromMeasurement sid prop tr ms = ms)
   \<and> (k < length ms \<and> isCarrier sid (ms ! k) \<and> (\<forall>j<k. \<not> isCarrier sid (ms ! j)) \<longrightarrow>
        Suc (length (applyValueFromMeasurement sid prop tr ms)) = length ms
        \<and> (\<forall>i<k. applyValueFromMeasurement sid prop tr ms ! i = ms ! i)
        \<and> (\<forall>i. k \<le> i \<and> Suc i < length ms \<longrightarrow>
              applyValueFromMeasurement sid prop tr ms ! i = ms ! Suc i
              \<or> (applyValueFromMeasurement sid prop tr ms ! i
                    = setp (ms ! Suc i) prop (carrierValue tr (ms ! k))
                  \<and> (\<forall>n. k < n \<and> n \<le> Suc i \<longrightarrow> \<not> isCarrier sid (ms ! n)))))"
proof (intro conjI impI)
  assume "\<forall>m \<in> set ms. \<not> isCarrier sid m"
  then show "applyValueFromMeasurement sid prop tr ms = ms"
    by (simp add: applyValueFromMeasurement_def applyValue_for_no_carrier)
next
  assume a: "k < length ms \<and> isCarrier sid (ms ! k) \<and> (\<forall>j<k. \<not> isCarrier sid (ms ! j))"
  then have k: "k < length ms" by simp
  have shape: "applyValueFromMeasurement sid prop tr ms =
     take k ms
     @ map (\<lambda>m. setp m prop (carrierValue tr (ms ! k)))
         (takeWhile (\<lambda>m. \<not> isCarrier sid m) (drop (Suc k) ms))
     @ dropWhile (\<lambda>m. \<not> isCarrier sid m) (drop (Suc k) ms)"
    using a by (intro applyValueFromMeasurement_shape) simp_all
  show "Suc (length (applyValueFromMeasurement sid prop tr ms)) = length ms"
    by (simp only: shape propagation_shape_length [OF k])
  show "\<forall>i<k. applyValueFromMeasurement sid prop tr ms ! i = ms ! i"
    by (simp only: shape) (simp add: propagation_shape_nth_before [OF k])
  show "\<forall>i. k \<le> i \<and> Suc i < length ms \<longrightarrow>
              applyValueFromMeasurement sid prop tr ms ! i = ms ! Suc i
              \<or> (applyValueFromMeasurement sid prop tr ms ! i
                    = setp (ms ! Suc i) prop (carrierValue tr (ms ! k))
                  \<and> (\<forall>n. k < n \<and> n \<le> Suc i \<longrightarrow> \<not> isCarrier sid (ms ! n)))"
  proof (intro allI impI)
    fix i assume i: "k \<le> i \<and> Suc i < length ms"
    then have "k \<le> i" "Suc i < length ms" by simp_all
    from propagation_shape_nth_after [OF k this,
        of "\<lambda>m. setp m prop (carrierValue tr (ms ! k))" "\<lambda>m. \<not> isCarrier sid m"]
    show "applyValueFromMeasurement sid prop tr ms ! i = ms ! Suc i
              \<or> (applyValueFromMeasurement sid prop tr ms ! i
                    = setp (ms ! Suc i) prop (carrierValue tr (ms ! k))
                  \<and> (\<forall>n. k < n \<and> n \<le> Suc i \<longrightarrow> \<not> isCarrier sid (ms ! n)))"
      by (simp only: shape)
  qed
qed

theorem propagation_keeps_order_witness:
  "isCarrier ''t'' ([meas ''x'' 5, meas ''t'' 100, meas ''y'' 6, meas ''t'' 200, meas ''z'' 7] ! 1)
   \<and> \<not> isCarrier ''t'' ([meas ''x'' 5, meas ''t'' 100, meas ''y'' 6, meas ''t'' 200, meas ''z'' 7] ! 0)
   \<and> length (applyValueFromMeasurement ''t'' ''createdAt'' None
        [meas ''x'' 5, meas ''t'' 100, meas ''y'' 6, meas ''t'' 200, meas ''z'' 7]) = 4
   \<and> applyValueFromMeasurement ''t'' ''createdAt'' None
        [meas ''x'' 5, meas ''t'' 100, meas ''y'' 6, meas ''t'' 200, meas ''z'' 7] ! 0 = meas ''x'' 5
   \<and> applyValueFromMeasurement ''t'' ''createdAt'' None [meas ''x'' 5, meas ''y'' 6]
      = [meas ''x'' 5, meas ''y'' 6]"
  using propagation_keeps_order [of "[meas ''x'' 5, meas ''t'' 100, meas ''y'' 6, meas ''t'' 200, meas ''z'' 7]"
       "''t''" "''createdAt''" None 1]
    propagation_keeps_order [of "[meas ''x'' 5, meas ''y'' 6]" "''t''" "''createdAt''" None 0]
  by (simp add: isCarrier_def getp_def meas_def less_Suc_eq)

section \<open>bufferToMeasurements: the number of measurements\<close>

lemma maskLength_eq: "foldl (\<lambda>l msk. l + bytes msk) a bt = a + sum_list (map bytes bt)"
  by (induction bt arbitrary: a) simp_all

lemma length_decodeMasks: "length (decodeMasks buf bt c acc) = length acc + length bt"
  by (induction bt arbitrary: c acc) simp_all

lemma length_applyValueFromMeasurement:
  "length (applyValueFromMeasurement sid prop tr ms)
   + (if \<exists>m \<in> set ms. isCarrier sid m then 1 else 0) = length ms"
  by (simp only: applyValueFromMeasurement_def length_applyValue_for)

lemma length_applyHooks:
  "map onResult bt = map propagationHook hs \<Longrightarrow>
   length (applyHooks bt ms) + carrierMatches ms hs = length ms"
proof (induction bt arbitrary: hs ms)
  case Nil
  then show ?case by simp
next
  case (Cons b bt)
  then obtain h hs' where hs: "hs = h # hs'" and b: "onResult b = propagationHook h"
    and rest: "map onResult bt = map propagationHook hs'"
    by (cases hs) auto
  show ?case
  proof (cases h)
    case None
    with b have "onResult b = None" by (simp add: propagationHook_def)
    with Cons.IH [OF rest, of ms] hs None show ?thesis by simp
  next
    case (Some a)
    obtain sid attr tr where a: "a = (sid, attr, tr)" by (cases a) auto
    with b Some have ob: "onResult b = Some (applyValueFromMeasurement sid attr tr)"
      by (simp add: propagationHook_def)
    have "length (applyHooks bt (applyValueFromMeasurement sid attr tr ms))
          + carrierMatches (applyValueFromMeasurement sid attr tr ms) hs'
          = length (applyValueFromMeasurement sid attr tr ms)"
      by (rule Cons.IH [OF rest])
    with length_applyValueFromMeasurement [of sid attr tr ms] hs Some a ob
    show ?thesis by simp
  qed
qed

text \<open>
  C8. For every buffer whose length is the transformer's declared total, the second loop
  produces as many measurements as the transformer has segments; and when every
  \<open>onResult\<close> hook of the transformer is a propagation hook (or missing), decoding
  succeeds and the number of measurements returned, plus the number of carrier matches
  the hooks found, is the number of segments.
\<close>

theorem measurement_count:
  "sum_list (map bytes bt) = length buf \<Longrightarrow> map onResult bt = map propagationHook hs \<Longrightarrow>
   length (decodeMasks buf bt 0 []) = length bt
   \<and> (\<exists>out. bufferToMeasurements buf bt = Inr out
          \<and> length out + carrierMatches (decodeMasks buf bt 0 []) hs = length bt)"
proof -
  assume len: "sum_list (map bytes bt) = length buf"
    and hooks: "map onResult bt = map propagationHook hs"
  have n: "length (decodeMasks buf bt 0 []) = length bt"
    by (simp add: length_decodeMasks)
  have "bufferToMeasurements buf bt = Inr (applyHooks bt (decodeMasks buf bt 0 []))"
    using len by (simp add: bufferToMeasurements_def maskLength_eq)
  moreover have "length (applyHooks bt (decodeMasks buf bt 0 []))
      + carrierMatches (decodeMasks buf bt 0 []) hs = length bt"
    using length_applyHooks [OF hooks, of "decodeMasks buf bt 0 []"] n by simp
  ultimately show ?thesis using n by simp
qed

theorem measurement_count_witness:
  "sum_list (map bytes
      [\<lparr>bytes = 1, sensorId = ''t'', transformer = (\<lambda>b. Num (bytesToInt b)),
         onResult = Some (applyValueFromMeasurement ''t'' ''createdAt'' None)\<rparr>,
       \<lparr>bytes = 2, sensorId = ''x'', transformer = (\<lambda>b. Num (bytesToInt b)), onResult = None\<rparr>])
     = length [7, 1, 0 :: 8 word]
   \<and> bufferToMeasurements [7, 1, 0]
      [\<lparr>bytes = 1, sensorId = ''t'', transformer = (\<lambda>b. Num (bytesToInt b)),
         onResult = Some (applyValueFromMeasurement ''t'' ''createdAt'' None)\<rparr>,
       \<lparr>bytes = 2, sensorId = ''x'', transformer = (\<lambda>b. Num (bytesToInt b)), onResult = None\<rparr>]
     = Inr [setp (meas ''x'' 1) ''createdAt'' (Num 7)]
   \<and> carrierMatches (decodeMasks [7, 1, 0]
      [\<lparr>bytes = 1, sensorId = ''t'', transformer = (\<lambda>b. Num (bytesToInt b)),
         onResult = Some (applyValueFromMeasurement ''t'' ''createdAt'' None)\<rparr>,
       \<lparr>bytes = 2, sensorId = ''x'', transformer = (\<lambda>b. Num (bytesToInt b)), onResult = None\<rparr>] 0 [])
      [Some (''t'', ''createdAt'', None), None] = 1"
  using measurement_count [of
      "[\<lparr>bytes = 1, sensorId = ''t'', transformer = (\<lambda>b. Num (bytesToInt b)),
         onResult = Some (applyValueFromMeasurement ''t'' ''createdAt'' None)\<rparr>,
       \<lparr>bytes = 2, sensorId = ''x'', transformer = (\<lambda>b. Num (bytesToInt b)), onResult = None\<rparr>]"
      "[7, 1, 0]" "[Some (''t'', ''createdAt'', None), None]"]
  by (simp add: propagationHook_def bufferToMeasurements_def slice_def bytesToInt_def shl32_def
      applyValueFromMeasurement_def getp_def setp_def meas_def isCarrier_def)

section \<open>bufferToMeasurements: the length check\<close>

lemma digitValue_digit: "d < 10 \<Longrightarrow> digitValue (''0123456789'' ! d) = d"
proof -
  assume "d < 10"
  then have "d = 0 \<or> d = 1 \<or> d = 2 \<or> d = 3 \<or> d = 4 \<or> d = 5 \<or> d = 6 \<or> d = 7 \<or> d = 8 \<or> d = 9"
    by arith
  then show ?thesis
    by (elim disjE) (simp_all add: digitValue_def upt_rec)
qed

lemma decimalValue_snoc: "decimalValue (s @ [c]) = 10 * decimalValue s + digitValue c"
  by (simp add: decimalValue_def)

lemma decimalValue_numToString: "decimalValue (numToString n) = n"
proof (induction n rule: numToString.induct)
  case (1 n)
  show ?case
  proof (cases "n < 10")
    case True
    then have "numToString n = [''0123456789'' ! n]"
      by (subst numToString.simps) simp
    with True show ?thesis
      by (simp add: decimalValue_def digitValue_digit)
  next
    case False
    then have "numToString n = numToString (n div 10) @ [''0123456789'' ! (n mod 10)]"
      by (subst numToString.simps) simp
    moreover have "decimalValue (numToString (n div 10)) = n div 10"
      using False by (rule "1.IH")
    ultimately show ?thesis
      by (simp add: decimalValue_snoc digitValue_digit)
  qed
qed

lemma bufferToMeasurements_mismatch:
  "sum_list (map bytes bt) \<noteq> length buf \<Longrightarrow>
   bufferToMeasurements buf bt =
     Inl (Error (''incorrect amount of bytes, should be '' @ numToString (sum_list (map bytes bt))))"
  by (simp add: bufferToMeasurements_def maskLength_eq)

lemma map_bytes_update:
  "map bytes (map (\<lambda>m. m\<lparr>transformer := f m, onResult := h m\<rparr>) bt) = map bytes bt"
  by (induction bt) simp_all

text \<open>
  C1. When the byte lengths of the segments do not add up to the length of the buffer,
  \<open>bufferToMeasurements\<close> fails with the error \<open>incorrect amount of bytes, should be N\<close>,
  \<open>N\<close> the decimal digits of the declared total, and returns no measurements. The failure
  comes before any decoding: it is the same whatever the segments' decode functions and
  hooks are. \<open>decodeBuffer\<close> then fails with this error and the validator is not reached.
\<close>

theorem length_mismatch_fails:
  "sum_list (map bytes bt) \<noteq> length buf \<Longrightarrow>
   bufferToMeasurements buf bt =
     Inl (Error (''incorrect amount of bytes, should be '' @ numToString (sum_list (map bytes bt))))
   \<and> decimalValue (numToString (sum_list (map bytes bt))) = sum_list (map bytes bt)
   \<and> bufferToMeasurements buf (map (\<lambda>m. m\<lparr>transformer := f m, onResult := h m\<rparr>) bt)
       = bufferToMeasurements buf bt
   \<and> (integrations bx = Some ig \<and> ttn ig = Some cfg \<and> profiles (profile cfg) = Some mk \<and> mk bx = Inr bt
        \<longrightarrow> decodeBuffer profiles validate buf bx ts =
          Inl (Error (''incorrect amount of bytes, should be '' @ numToString (sum_list (map bytes bt)))))"
proof -
  assume ne: "sum_list (map bytes bt) \<noteq> length buf"
  have 1: "bufferToMeasurements buf bt =
     Inl (Error (''incorrect amount of bytes, should be '' @ numToString (sum_list (map bytes bt))))"
    using ne by (rule bufferToMeasurements_mismatch)
  have "bufferToMeasurements buf (map (\<lambda>m. m\<lparr>transformer := f m, onResult := h m\<rparr>) bt) =
     Inl (Error (''incorrect amount of bytes, should be ''
       @ numToString (sum_list (map bytes (map (\<lambda>m. m\<lparr>transformer := f m, onResult := h m\<rparr>) bt)))))"
    by (rule bufferToMeasurements_mismatch, unfold map_bytes_update, rule ne)
  then have 2: "bufferToMeasurements buf (map (\<lambda>m. m\<lparr>transformer := f m, onResult := h m\<rparr>) bt)
       = bufferToMeasurements buf bt"
    by (simp only: 1 map_bytes_update)
  have 3: "decodeBuffer profiles validate buf bx ts =
          Inl (Error (''incorrect amount of bytes, should be '' @ numToString (sum_list (map bytes bt))))"
    if "integrations bx = Some ig \<and> ttn ig = Some cfg \<and> profiles (profile cfg) = Some mk \<and> mk bx = Inr bt"
    using that 1 by (simp add: decodeBuffer_def)
  from 1 2 3 show ?thesis
    by (simp only: decimalValue_numToString) blast
qed

theorem length_mismatch_fails_witness:
  "sum_list (map bytes [\<lparr>bytes = 2, sensorId = ''x'', transformer = (\<lambda>b. Num (bytesToInt b)), onResult = None\<rparr>])
     \<noteq> length [1, 2, 3 :: 8 word]
   \<and> bufferToMeasurements [1, 2, 3]
        [\<lparr>bytes = 2, sensorId = ''x'', transformer = (\<lambda>b. Num (bytesToInt b)), onResult = None\<rparr>]
      = Inl (Error ''incorrect amount of bytes, should be 2'')
   \<and> decodeBuffer
        [''debug'' \<mapsto> (\<lambda>b. Inr [\<lparr>bytes = 2, sensorId = ''x'', transformer = (\<lambda>b. Num (bytesToInt b)), onResult = None\<rparr>])]
        Inr [1, 2, 3]
        \<lparr>sensors = [], integrations = Some \<lparr>ttn = Some \<lparr>profile = ''debug''\<rparr>\<rparr>\<rparr> Undefined
      = Inl (Error ''incorrect amount of bytes, should be 2'')"
  using length_mismatch_fails [where
      bt = "[\<lparr>bytes = 2, sensorId = ''x'', transformer = (\<lambda>b. Num (bytesToInt b)), onResult = None\<rparr>]"
      and buf = "[1, 2, 3]" and f = transformer and h = onResult
      and bx = "\<lparr>sensors = [], integrations = Some \<lparr>ttn = Some \<lparr>profile = ''debug''\<rparr>\<rparr>\<rparr>"
      and ig = "\<lparr>ttn = Some \<lparr>profile = ''debug''\<rparr>\<rparr>" and cfg = "\<lparr>profile = ''debug''\<rparr>"
      and profiles = "[''debug'' \<mapsto> (\<lambda>b. Inr [\<lparr>bytes = 2, sensorId = ''x'', transformer = (\<lambda>b. Num (bytesToInt b)), onResult = None\<rparr>])]"
      and mk = "\<lambda>b. Inr [\<lparr>bytes = 2, sensorId = ''x'', transformer = (\<lambda>b. Num (bytesToInt b)), onResult = None\<rparr>]"
      and validate = Inr and ts = Undefined]
  by (simp add: numToString.simps)

section \<open>decodeBuffer: the timestamp\<close>

lemma setCreatedAt_stamps:
  "truthy ts \<Longrightarrow> ms \<noteq> [] \<Longrightarrow> \<not> truthy (getp (hd ms) ''createdAt'') \<Longrightarrow>
   setCreatedAt ts ms = map (\<lambda>m. setp m ''createdAt'' ts) ms"
  by (cases ms) (simp_all add: setCreatedAt_def)

lemma setCreatedAt_keeps:
  "\<not> truthy ts \<or> ms = [] \<or> truthy (getp (hd ms) ''createdAt'') \<Longrightarrow> setCreatedAt ts ms = ms"
  by (cases ms) (auto simp: setCreatedAt_def)

lemma decodeBuffer_reaches_validator:
  "integrations bx = Some ig \<Longrightarrow> ttn ig = Some cfg \<Longrightarrow> profiles (profile cfg) = Some mk \<Longrightarrow>
   mk bx = Inr bt \<Longrightarrow> bufferToMeasurements buf bt = Inr ms \<Longrightarrow>
   decodeBuffer profiles validate buf bx ts = validate (setCreatedAt ts ms)"
  by (simp add: decodeBuffer_def)

text \<open>
  C9. When \<open>decodeBuffer\<close> has decoded the measurements \<open>ms\<close>, what it hands to the
  validator has as many measurements as \<open>ms\<close>. If a timestamp was supplied (a truthy
  value, what the test \<open>timestamp &&\<close> accepts) and the first measurement carries no
  creation timestamp (its \<open>createdAt\<close> is not truthy), every measurement is \<open>ms\<close>'s with
  \<open>createdAt\<close> set to that one timestamp, its other properties unchanged. If the first
  measurement carries one, or no timestamp was supplied, or there is no measurement, the
  validator gets \<open>ms\<close> itself.
\<close>

theorem decodeBuffer_timestamp:
  "integrations bx = Some ig \<Longrightarrow> ttn ig = Some cfg \<Longrightarrow> profiles (profile cfg) = Some mk \<Longrightarrow>
   mk bx = Inr bt \<Longrightarrow> bufferToMeasurements buf bt = Inr ms \<Longrightarrow>
   \<exists>out. decodeBuffer profiles validate buf bx ts = validate out \<and> length out = length ms
     \<and> (truthy ts \<and> ms \<noteq> [] \<and> \<not> truthy (getp (hd ms) ''createdAt'') \<longrightarrow>
          (\<forall>i<length ms. out ! i = setp (ms ! i) ''createdAt'' ts
              \<and> getp (out ! i) ''createdAt'' = ts
              \<and> (\<forall>q. q \<noteq> ''createdAt'' \<longrightarrow> getp (out ! i) q = getp (ms ! i) q)))
     \<and> (\<not> truthy ts \<or> ms = [] \<or> truthy (getp (hd ms) ''createdAt'') \<longrightarrow> out = ms)"
proof -
  assume a: "integrations bx = Some ig" "ttn ig = Some cfg" "profiles (profile cfg) = Some mk"
    "mk bx = Inr bt" "bufferToMeasurements buf bt = Inr ms"
  have 1: "decodeBuffer profiles validate buf bx ts = validate (setCreatedAt ts ms)"
    using a by (rule decodeBuffer_reaches_validator)
  have 2: "length (setCreatedAt ts ms) = length ms"
    by (cases ms) (simp_all add: setCreatedAt_def)
  have 3: "\<forall>i<length ms. setCreatedAt ts ms ! i = setp (ms ! i) ''createdAt'' ts
              \<and> getp (setCreatedAt ts ms ! i) ''createdAt'' = ts
              \<and> (\<forall>q. q \<noteq> ''createdAt'' \<longrightarrow> getp (setCreatedAt ts ms ! i) q = getp (ms ! i) q)"
    if "truthy ts \<and> ms \<noteq> [] \<and> \<not> truthy (getp (hd ms) ''createdAt'')"
    using that by (simp add: setCreatedAt_stamps getp_setp getp_setp_other)
  have 4: "setCreatedAt ts ms = ms"
    if "\<not> truthy ts \<or> ms = [] \<or> truthy (getp (hd ms) ''createdAt'')"
    using that by (rule setCreatedAt_keeps)
  from 1 2 3 4 show ?thesis by blast
qed

theorem decodeBuffer_timestamp_witness:
  "bufferToMeasurements [7, 1, 0]
      [\<lparr>bytes = 1, sensorId = ''a'', transformer = (\<lambda>b. Num (bytesToInt b)), onResult = None\<rparr>,
       \<lparr>bytes = 2, sensorId = ''x'', transformer = (\<lambda>b. Num (bytesToInt b)), onResult = None\<rparr>]
     = Inr [meas ''a'' 7, meas ''x'' 1]
   \<and> truthy (Str ''2017-05-03T19:20:09Z'')
   \<and> \<not> truthy (getp (hd [meas ''a'' 7, meas ''x'' 1]) ''createdAt'')
   \<and> decodeBuffer
        [''debug'' \<mapsto> (\<lambda>b. Inr
          [\<lparr>bytes = 1, sensorId = ''a'', transformer = (\<lambda>b. Num (bytesToInt b)), onResult = None\<rparr>,
           \<lparr>bytes = 2, sensorId = ''x'', transformer = (\<lambda>b. Num (bytesToInt b)), onResult = None\<rparr>])]
        Inr [7, 1, 0]
        \<lparr>sensors = [], integrations = Some \<lparr>ttn = Some \<lparr>profile = ''debug''\<rparr>\<rparr>\<rparr>
        (Str ''2017-05-03T19:20:09Z'')
      = Inr [setp (meas ''a'' 7) ''createdAt'' (Str ''2017-05-03T19:20:09Z''),
             setp (meas ''x'' 1) ''createdAt'' (Str ''2017-05-03T19:20:09Z'')]
   \<and> decodeBuffer
        [''debug'' \<mapsto> (\<lambda>b. Inr
          [\<lparr>bytes = 1, sensorId = ''a'', transformer = (\<lambda>b. Num (bytesToInt b)), onResult = None\<rparr>,
           \<lparr>bytes = 2, sensorId = ''x'', transformer = (\<lambda>b. Num (bytesToInt b)), onResult = None\<rparr>])]
        Inr [7, 1, 0]
        \<lparr>sensors = [], integrations = Some \<lparr>ttn = Some \<lparr>profile = ''debug''\<rparr>\<rparr>\<rparr>
        Undefined
      = Inr [meas ''a'' 7, meas ''x'' 1]"
proof -
  let ?bt = "[\<lparr>bytes = 1, sensorId = ''a'', transformer = (\<lambda>b. Num (bytesToInt b)), onResult = None\<rparr>,
       \<lparr>bytes = 2, sensorId = ''x'', transformer = (\<lambda>b. Num (bytesToInt b)), onResult = None\<rparr>]"
  let ?profiles = "[''debug'' \<mapsto> (\<lambda>b :: box. Inr ?bt :: error + mask list)]"
  let ?bx = "\<lparr>sensors = [], integrations = Some \<lparr>ttn = Some \<lparr>profile = ''debug''\<rparr>\<rparr>\<rparr>"
  let ?ms = "[meas ''a'' 7, meas ''x'' 1]"
  let ?ts = "Str ''2017-05-03T19:20:09Z''"
  have b: "bufferToMeasurements [7, 1, 0] ?bt = Inr ?ms"
    by (simp add: bufferToMeasurements_def slice_def bytesToInt_def shl32_def meas_def)
  have i: "integrations ?bx = Some \<lparr>ttn = Some \<lparr>profile = ''debug''\<rparr>\<rparr>"
    and t: "ttn \<lparr>ttn = Some \<lparr>profile = ''debug''\<rparr>\<rparr> = Some \<lparr>profile = ''debug''\<rparr>"
    and p: "?profiles (profile \<lparr>profile = ''debug''\<rparr>) = Some (\<lambda>b. Inr ?bt)"
    and m: "(\<lambda>b :: box. Inr ?bt :: error + mask list) ?bx = Inr ?bt"
    by simp_all
  have tr: "truthy ?ts" and nc: "\<not> truthy (getp (hd ?ms) ''createdAt'')"
    by (simp_all add: getp_def meas_def)
  obtain out where o: "decodeBuffer ?profiles Inr [7, 1, 0] ?bx ?ts = Inr out"
    and l: "length out = length ?ms"
    and s: "truthy ?ts \<and> ?ms \<noteq> [] \<and> \<not> truthy (getp (hd ?ms) ''createdAt'') \<longrightarrow>
          (\<forall>i<length ?ms. out ! i = setp (?ms ! i) ''createdAt'' ?ts
              \<and> getp (out ! i) ''createdAt'' = ?ts
              \<and> (\<forall>q. q \<noteq> ''createdAt'' \<longrightarrow> getp (out ! i) q = getp (?ms ! i) q))"
    using decodeBuffer_timestamp [where bx = ?bx and profiles = ?profiles and mk = "\<lambda>b. Inr ?bt"
        and validate = Inr and ts = ?ts, OF i t p m b] by blast
  from s tr nc have "out ! 0 = setp (meas ''a'' 7) ''createdAt'' ?ts"
    and "out ! 1 = setp (meas ''x'' 1) ''createdAt'' ?ts"
    by simp_all
  with l have "out = [setp (meas ''a'' 7) ''createdAt'' ?ts, setp (meas ''x'' 1) ''createdAt'' ?ts]"
    by (cases out; cases "tl out") auto
  with o have 1: "decodeBuffer ?profiles Inr [7, 1, 0] ?bx ?ts
     = Inr [setp (meas ''a'' 7) ''createdAt'' ?ts, setp (meas ''x'' 1) ''createdAt'' ?ts]"
    by simp
  obtain out' where o': "decodeBuffer ?profiles Inr [7, 1, 0] ?bx Undefined = Inr out'"
    and s': "\<not> truthy Undefined \<or> ?ms = [] \<or> truthy (getp (hd ?ms) ''createdAt'') \<longrightarrow> out' = ?ms"
    using decodeBuffer_timestamp [where bx = ?bx and profiles = ?profiles and mk = "\<lambda>b. Inr ?bt"
        and validate = Inr and ts = Undefined, OF i t p m b] by blast
  from o' s' have 2: "decodeBuffer ?profiles Inr [7, 1, 0] ?bx Undefined = Inr ?ms"
    by simp
  from b tr nc 1 2 show ?thesis by blast
qed

section \<open>toLowerCase: comparing in lower case is comparing up to case\<close>

lemma char_of_add32: "k < 224 \<Longrightarrow> (char_of (k + 32 :: nat) = e) = (of_char e = k + 32)"
  by (auto simp: char_of_eq_iff take_bit_nat_eq_self)

lemma lowerChar_eq_iff: "lowerChar c = lowerChar d \<longleftrightarrow> sameLetter c d"
proof -
  define m where "m = (of_char c :: nat)"
  define n where "n = (of_char d :: nat)"
  have cd: "c = d \<longleftrightarrow> m = n"
    by (simp add: m_def n_def)
  have e1: "\<And>k. k < 224 \<Longrightarrow> (char_of (k + 32) = d) = (n = k + 32)"
    by (simp add: char_of_add32 n_def)
  have e2: "\<And>k. k < 224 \<Longrightarrow> (c = char_of (k + 32)) = (m = k + 32)"
    using char_of_add32 [of _ c] by (auto simp: m_def)
  have e3: "\<And>k l. k < 224 \<Longrightarrow> l < 224 \<Longrightarrow>
      (char_of (k + 32 :: nat) = (char_of (l + 32 :: nat) :: char)) = (k = l)"
    by (simp add: char_of_add32)
  let ?U = "\<lambda>x :: nat. (65 \<le> x \<and> x \<le> 90) \<or> (192 \<le> x \<and> x \<le> 222 \<and> x \<noteq> 215)"
  have u: "\<And>x. ?U x \<Longrightarrow> x < 224" by auto
  have lcU: "?U m \<Longrightarrow> lowerChar c = char_of (m + 32)"
    by (auto simp: lowerChar_def Let_def m_def)
  have lcN: "\<not> ?U m \<Longrightarrow> lowerChar c = c"
    by (auto simp: lowerChar_def Let_def m_def)
  have ldU: "?U n \<Longrightarrow> lowerChar d = char_of (n + 32)"
    by (auto simp: lowerChar_def Let_def n_def)
  have ldN: "\<not> ?U n \<Longrightarrow> lowerChar d = d"
    by (auto simp: lowerChar_def Let_def n_def)
  have sl: "sameLetter c d \<longleftrightarrow> m = n \<or> (n = m + 32 \<and> ?U m) \<or> (m = n + 32 \<and> ?U n)"
    unfolding m_def n_def by (simp add: sameLetter_def Let_def)
  consider "?U m" "?U n" | "?U m" "\<not> ?U n" | "\<not> ?U m" "?U n" | "\<not> ?U m" "\<not> ?U n"
    by blast
  then show ?thesis
  proof cases
    case 1
    have "lowerChar c = lowerChar d \<longleftrightarrow> m = n"
      by (simp only: lcU [OF 1(1)] ldU [OF 1(2)] e3 [OF u [OF 1(1)] u [OF 1(2)]])
    moreover have "sameLetter c d \<longleftrightarrow> m = n"
      unfolding sl using 1 by arith
    ultimately show ?thesis by simp
  next
    case 2
    have "lowerChar c = lowerChar d \<longleftrightarrow> n = m + 32"
      by (simp only: lcU [OF 2(1)] ldN [OF 2(2)] e1 [OF u [OF 2(1)]])
    moreover have "sameLetter c d \<longleftrightarrow> n = m + 32"
      unfolding sl using 2 by arith
    ultimately show ?thesis by simp
  next
    case 3
    have "lowerChar c = lowerChar d \<longleftrightarrow> m = n + 32"
      by (simp only: lcN [OF 3(1)] ldU [OF 3(2)] e2 [OF u [OF 3(2)]])
    moreover have "sameLetter c d \<longleftrightarrow> m = n + 32"
      unfolding sl using 3 by arith
    ultimately show ?thesis by simp
  next
    case 4
    have "lowerChar c = lowerChar d \<longleftrightarrow> m = n"
      by (simp only: lcN [OF 4(1)] ldN [OF 4(2)] cd)
    moreover have "sameLetter c d \<longleftrightarrow> m = n"
      unfolding sl using 4 by arith
    ultimately show ?thesis by simp
  qed
qed

lemma toLowerCase_eq_iff: "toLowerCase v = toLowerCase a \<longleftrightarrow> equalIgnoringCase v a"
proof (induction v arbitrary: a)
  case Nil
  show ?case by (simp add: toLowerCase_def equalIgnoringCase_def)
next
  case (Cons c v)
  then show ?case
    by (cases a) (simp_all add: toLowerCase_def equalIgnoringCase_def lowerChar_eq_iff)
qed

lemma toLowerCase_in_aliases:
  "toLowerCase v \<in> set (map toLowerCase als) \<longleftrightarrow> (\<exists>a \<in> set als. equalIgnoringCase v a)"
  by (auto simp: toLowerCase_eq_iff [symmetric])

section \<open>findSensorIds: first match wins\<close>

lemma scanSensors_find:
  "scanSensors (map toLowerCase als) p ss = map_option oid (List.find (\<lambda>s. matchesAlias s p als) ss)"
  by (induction ss) (auto simp: matchesAlias_def toLowerCase_in_aliases simp del: set_map split: option.splits)

lemma scanSensors_None_iff:
  "scanSensors (map toLowerCase als) p ss = None \<longleftrightarrow> (\<forall>s \<in> set ss. \<not> matchesAlias s p als)"
  by (auto simp: scanSensors_find find_None_iff)

lemma scanProps_resolveRole: "scanProps ss props = resolveRole ss props"
proof (induction props)
  case Nil
  show ?case by (simp add: resolveRole_def)
next
  case (Cons a props)
  obtain p als where a: "a = (p, als)" by (cases a) auto
  show ?case
  proof (cases "\<exists>s \<in> set ss. matchesAlias s p als")
    case True
    then have "scanSensors (map toLowerCase als) p ss \<noteq> None"
      by (simp add: scanSensors_None_iff)
    then obtain i where i: "scanSensors (map toLowerCase als) p ss = Some i" by auto
    with True a show ?thesis
      by (simp add: resolveRole_def scanSensors_find [symmetric])
  next
    case False
    then have "scanSensors (map toLowerCase als) p ss = None"
      by (simp add: scanSensors_None_iff)
    with False a Cons.IH show ?thesis
      by (simp add: resolveRole_def)
  qed
qed

lemma findSensorIds_loop_other:
  "role \<notin> fst ` set spec \<Longrightarrow> findSensorIds_loop ss spec m role = m role"
  by (induction spec arbitrary: m) (auto split: option.splits)

lemma findSensorIds_loop_role:
  "distinct (map fst spec) \<Longrightarrow> (role, props) \<in> set spec \<Longrightarrow>
   findSensorIds_loop ss spec m role = (case scanProps ss props of Some i \<Rightarrow> Some i | None \<Rightarrow> m role)"
proof (induction spec arbitrary: m)
  case Nil
  then show ?case by simp
next
  case (Cons a spec)
  obtain r ps where a: "a = (r, ps)" by (cases a) auto
  show ?case
  proof (cases "(role, props) \<in> set spec")
    case True
    with Cons.prems a have "r \<noteq> role" by (auto simp: image_iff)
    with Cons.IH [OF _ True] Cons.prems a show ?thesis
      by (simp split: option.splits)
  next
    case False
    with Cons.prems a have e: "r = role" "ps = props" by auto
    with Cons.prems a have "role \<notin> fst ` set spec" by simp
    with e a show ?thesis
      by (simp add: findSensorIds_loop_other split: option.splits)
  qed
qed

lemma findSensorIds_role:
  "distinct (map fst spec) \<Longrightarrow> (role, props) \<in> set spec \<Longrightarrow>
   findSensorIds ss spec role = resolveRole ss props"
  by (simp add: findSensorIds_def findSensorIds_loop_role scanProps_resolveRole split: option.splits)

lemma resolveRole_first:
  assumes j: "j < length props" and k: "k < length ss"
    and mk: "matchesAlias (ss ! k) (fst (props ! j)) (snd (props ! j))"
    and fk: "\<forall>k'<k. \<not> matchesAlias (ss ! k') (fst (props ! j)) (snd (props ! j))"
    and fj: "\<forall>j'<j. \<forall>s \<in> set ss. \<not> matchesAlias s (fst (props ! j')) (snd (props ! j'))"
  shows "resolveRole ss props = Some (oid (ss ! k))"
proof -
  let ?Q = "\<lambda>(p, als). \<exists>s \<in> set ss. matchesAlias s p als"
  have q: "?Q (props ! j)"
    using k mk by (auto simp: case_prod_beta)
  have nq: "\<forall>j'<j. \<not> ?Q (props ! j')"
    using fj by (auto simp: case_prod_beta)
  from j q nq
  have "j < length props \<and> ?Q (props ! j) \<and> props ! j = props ! j \<and> (\<forall>j'<j. \<not> ?Q (props ! j'))"
    by (intro conjI refl)
  then have "\<exists>i<length props. ?Q (props ! i) \<and> props ! j = props ! i \<and> (\<forall>j'<i. \<not> ?Q (props ! j'))"
    by (rule exI [of _ j])
  then have 1: "List.find ?Q props = Some (props ! j)"
    by (simp only: find_Some_iff)
  from k mk fk
  have "k < length ss \<and> matchesAlias (ss ! k) (fst (props ! j)) (snd (props ! j)) \<and> ss ! k = ss ! k
      \<and> (\<forall>k'<k. \<not> matchesAlias (ss ! k') (fst (props ! j)) (snd (props ! j)))"
    by (intro conjI refl)
  then have "\<exists>i<length ss. matchesAlias (ss ! i) (fst (props ! j)) (snd (props ! j)) \<and> ss ! k = ss ! i
      \<and> (\<forall>k'<i. \<not> matchesAlias (ss ! k') (fst (props ! j)) (snd (props ! j)))"
    by (rule exI [of _ k])
  then have 2: "List.find (\<lambda>s. matchesAlias s (fst (props ! j)) (snd (props ! j))) ss = Some (ss ! k)"
    by (simp only: find_Some_iff)
  show ?thesis
    using 1 2 by (simp add: resolveRole_def case_prod_beta)
qed


text \<open>
  C5. \<open>findSensorIds\<close> resolves each role of the spec by first match: the role's entry is
  what the first-match search gives (the role's attributes in spec order, for each the
  sensors in list order). A sensor matches an attribute when its value is there and is
  equal up to the case of the letters to one of the attribute's aliases, which is what
  the code's comparison of the lower-cased value with the lower-cased aliases decides.
  Whenever attribute \<open>j\<close> of the role is the first one that any sensor matches and sensor
  \<open>k\<close> is the first sensor matching it, the role is mapped to the identifier of sensor
  \<open>k\<close>, whatever sensors behind \<open>k\<close> or attributes behind \<open>j\<close> would match: the order of
  the input decides, no score.
\<close>

theorem findSensorIds_first_match_wins:
  "distinct (map fst spec) \<Longrightarrow> (role, props) \<in> set spec \<Longrightarrow>
   findSensorIds ss spec role = resolveRole ss props
   \<and> (j < length props \<and> k < length ss
        \<and> matchesAlias (ss ! k) (fst (props ! j)) (snd (props ! j))
        \<and> (\<forall>k'<k. \<not> matchesAlias (ss ! k') (fst (props ! j)) (snd (props ! j)))
        \<and> (\<forall>j'<j. \<forall>s \<in> set ss. \<not> matchesAlias s (fst (props ! j')) (snd (props ! j')))
      \<longrightarrow> findSensorIds ss spec role = Some (oid (ss ! k)))
   \<and> (matchesAlias s p als \<longleftrightarrow>
        (\<exists>v. sensorAt s p = Some v \<and> v \<noteq> [] \<and> (\<exists>a \<in> set als. list_all2 sameLetter v a)))
   \<and> (toLowerCase v \<in> set (map toLowerCase als) \<longleftrightarrow> (\<exists>a \<in> set als. list_all2 sameLetter v a))
   \<and> (sameLetter c d \<longleftrightarrow>
        c = d
        \<or> (of_char d = (of_char c :: nat) + 32
            \<and> (of_char c \<in> {65..90 :: nat} \<or> of_char c \<in> {192..222 :: nat} - {215}))
        \<or> (of_char c = (of_char d :: nat) + 32
            \<and> (of_char d \<in> {65..90 :: nat} \<or> of_char d \<in> {192..222 :: nat} - {215})))"
proof -
  assume d: "distinct (map fst spec)" and r: "(role, props) \<in> set spec"
  have 1: "findSensorIds ss spec role = resolveRole ss props"
    using d r by (rule findSensorIds_role)
  have 2: "findSensorIds ss spec role = Some (oid (ss ! k))"
    if "j < length props \<and> k < length ss
        \<and> matchesAlias (ss ! k) (fst (props ! j)) (snd (props ! j))
        \<and> (\<forall>k'<k. \<not> matchesAlias (ss ! k') (fst (props ! j)) (snd (props ! j)))
        \<and> (\<forall>j'<j. \<forall>s \<in> set ss. \<not> matchesAlias s (fst (props ! j')) (snd (props ! j')))"
  proof -
    from that have "resolveRole ss props = Some (oid (ss ! k))"
      by (intro resolveRole_first [of j props k ss]) simp_all
    then show ?thesis by (simp only: 1)
  qed
  have 3: "matchesAlias s p als \<longleftrightarrow>
        (\<exists>v. sensorAt s p = Some v \<and> v \<noteq> [] \<and> (\<exists>a \<in> set als. list_all2 sameLetter v a))"
    by (simp add: matchesAlias_def equalIgnoringCase_def split: option.splits)
  have 4: "toLowerCase v \<in> set (map toLowerCase als) \<longleftrightarrow> (\<exists>a \<in> set als. list_all2 sameLetter v a)"
    by (simp only: toLowerCase_in_aliases equalIgnoringCase_def)
  have 5: "sameLetter c d \<longleftrightarrow>
        c = d
        \<or> (of_char d = (of_char c :: nat) + 32
            \<and> (of_char c \<in> {65..90 :: nat} \<or> of_char c \<in> {192..222 :: nat} - {215}))
        \<or> (of_char c = (of_char d :: nat) + 32
            \<and> (of_char d \<in> {65..90 :: nat} \<or> of_char d \<in> {192..222 :: nat} - {215}))"
    by (simp add: sameLetter_def Let_def)
  from 1 2 3 4 5 show ?thesis by blast
qed

theorem findSensorIds_first_match_wins_witness:
  "distinct (map fst exampleMatchings)
   \<and> matchesAlias (exampleSensors ! 1) ''title'' [''luftfeuchtigkeit'', ''Humidity'', ''rel. luftfeuchte'']
   \<and> \<not> matchesAlias (exampleSensors ! 0) ''title'' [''luftfeuchtigkeit'', ''Humidity'', ''rel. luftfeuchte'']
   \<and> matchesAlias (exampleSensors ! 2) ''title'' [''luftfeuchtigkeit'', ''Humidity'', ''rel. luftfeuchte'']
   \<and> matchesAlias (exampleSensors ! 0) ''sensorType'' [''hdc1008'']
   \<and> findSensorIds exampleSensors exampleMatchings ''humidity'' = Some ''b''
   \<and> matchesAlias \<lparr>oid = ''a'', attrs = [''title'' \<mapsto> [CHR 0xC4]]\<rparr> ''title'' [[CHR 0xE4]]
   \<and> findSensorIds
        [\<lparr>oid = ''a'', attrs = [''title'' \<mapsto> [CHR 0xC4]]\<rparr>, \<lparr>oid = ''b'', attrs = [''title'' \<mapsto> [CHR 0xE4]]\<rparr>]
        [(''umlaut'', [(''title'', [[CHR 0xE4]])])] ''umlaut'' = Some ''a''
   \<and> toLowerCase (''BELEUCHTUNGSST'' @ [CHR 0xC4] @ ''RKE'') = ''beleuchtungsst'' @ [CHR 0xE4] @ ''rke''"
proof -
  let ?props = "[(''title'', [''luftfeuchtigkeit'', ''Humidity'', ''rel. luftfeuchte'']),
                 (''sensorType'', [''hdc1008''])]"
  have d: "distinct (map fst exampleMatchings)"
    by (simp add: exampleMatchings_def)
  have r: "(''humidity'', ?props) \<in> set exampleMatchings"
    by (simp add: exampleMatchings_def)
  have m0: "\<not> matchesAlias (exampleSensors ! 0) ''title'' [''luftfeuchtigkeit'', ''Humidity'', ''rel. luftfeuchte'']"
    by (simp add: exampleSensors_def matchesAlias_def sensorAt_def equalIgnoringCase_def sameLetter_def)
  have m1: "matchesAlias (exampleSensors ! 1) ''title'' [''luftfeuchtigkeit'', ''Humidity'', ''rel. luftfeuchte'']"
    by (simp add: exampleSensors_def matchesAlias_def sensorAt_def equalIgnoringCase_def sameLetter_def)
  have m2: "matchesAlias (exampleSensors ! 2) ''title'' [''luftfeuchtigkeit'', ''Humidity'', ''rel. luftfeuchte'']"
    by (simp add: exampleSensors_def matchesAlias_def sensorAt_def equalIgnoringCase_def sameLetter_def)
  have m3: "matchesAlias (exampleSensors ! 0) ''sensorType'' [''hdc1008'']"
    by (simp add: exampleSensors_def matchesAlias_def sensorAt_def equalIgnoringCase_def sameLetter_def)
  have h: "0 < length ?props \<and> 1 < length exampleSensors
        \<and> matchesAlias (exampleSensors ! 1) (fst (?props ! 0)) (snd (?props ! 0))
        \<and> (\<forall>k'<1. \<not> matchesAlias (exampleSensors ! k') (fst (?props ! 0)) (snd (?props ! 0)))
        \<and> (\<forall>j'<0. \<forall>s \<in> set exampleSensors. \<not> matchesAlias s (fst (?props ! j')) (snd (?props ! j')))"
    using m0 m1 by (simp add: exampleSensors_def)
  have "findSensorIds exampleSensors exampleMatchings ''humidity'' = Some (oid (exampleSensors ! 1))"
    using findSensorIds_first_match_wins [OF d r, of exampleSensors 0 1, THEN conjunct2, THEN conjunct1] h
    by (rule mp)
  then have e1: "findSensorIds exampleSensors exampleMatchings ''humidity'' = Some ''b''"
    by (simp add: exampleSensors_def)
  let ?us = "[\<lparr>oid = ''a'', attrs = [''title'' \<mapsto> [CHR 0xC4]]\<rparr>, \<lparr>oid = ''b'', attrs = [''title'' \<mapsto> [CHR 0xE4]]\<rparr>]"
  let ?uprops = "[(''title'', [[CHR 0xE4]])]"
  let ?uspec = "[(''umlaut'', ?uprops)]"
  have ud: "distinct (map fst ?uspec)" by simp
  have ur: "(''umlaut'', ?uprops) \<in> set ?uspec" by simp
  have um: "matchesAlias \<lparr>oid = ''a'', attrs = [''title'' \<mapsto> [CHR 0xC4]]\<rparr> ''title'' [[CHR 0xE4]]"
    by (simp add: matchesAlias_def sensorAt_def equalIgnoringCase_def sameLetter_def)
  have uh: "0 < length ?uprops \<and> 0 < length ?us
        \<and> matchesAlias (?us ! 0) (fst (?uprops ! 0)) (snd (?uprops ! 0))
        \<and> (\<forall>k'<0. \<not> matchesAlias (?us ! k') (fst (?uprops ! 0)) (snd (?uprops ! 0)))
        \<and> (\<forall>j'<0. \<forall>s \<in> set ?us. \<not> matchesAlias s (fst (?uprops ! j')) (snd (?uprops ! j')))"
    using um by simp
  have "findSensorIds ?us ?uspec ''umlaut'' = Some (oid (?us ! 0))"
    using findSensorIds_first_match_wins [OF ud ur, of ?us 0 0, THEN conjunct2, THEN conjunct1] uh
    by (rule mp)
  then have e2: "findSensorIds ?us ?uspec ''umlaut'' = Some ''a''"
    by simp
  have e3: "toLowerCase (''BELEUCHTUNGSST'' @ [CHR 0xC4] @ ''RKE'') = ''beleuchtungsst'' @ [CHR 0xE4] @ ''rke''"
    by (simp add: toLowerCase_def lowerChar_def char_of_eq_iff)
  from d m1 m0 m2 m3 e1 um e2 e3 show ?thesis by (intro conjI)
qed

section \<open>findSensorIds: roles without a match\<close>

lemma scanProps_None:
  "(\<And>p als s. (p, als) \<in> set props \<Longrightarrow> s \<in> set ss \<Longrightarrow> \<not> matchesAlias s p als) \<Longrightarrow>
   scanProps ss props = None"
proof (induction props)
  case Nil
  show ?case by simp
next
  case (Cons a props)
  obtain p als where a: "a = (p, als)" by (cases a) auto
  have "scanSensors (map toLowerCase als) p ss = None"
    using Cons.prems a by (simp add: scanSensors_None_iff)
  moreover have "scanProps ss props = None"
    using Cons.prems by (intro Cons.IH) auto
  ultimately show ?case using a by simp
qed

lemma findSensorIds_loop_unmatched:
  "(\<And>props. (role, props) \<in> set spec \<Longrightarrow> scanProps ss props = None) \<Longrightarrow>
   findSensorIds_loop ss spec m role = m role"
proof (induction spec arbitrary: m)
  case Nil
  show ?case by simp
next
  case (Cons a spec)
  obtain r ps where a: "a = (r, ps)" by (cases a) auto
  have "findSensorIds_loop ss spec m' role = m' role" for m'
    using Cons.prems by (intro Cons.IH) auto
  moreover have "r = role \<Longrightarrow> scanProps ss ps = None"
    using Cons.prems a by auto
  ultimately show ?case using a
    by (auto split: option.splits)
qed

lemma scanProps_matched:
  "(p, als) \<in> set props \<Longrightarrow> s \<in> set ss \<Longrightarrow> matchesAlias s p als \<Longrightarrow> scanProps ss props \<noteq> None"
proof (induction props)
  case Nil
  then show ?case by simp
next
  case (Cons a props)
  obtain q bls where a: "a = (q, bls)" by (cases a) auto
  show ?case
  proof (cases "scanSensors (map toLowerCase bls) q ss")
    case (Some i)
    with a show ?thesis by simp
  next
    case None
    then have "\<forall>s \<in> set ss. \<not> matchesAlias s q bls"
      by (simp only: scanSensors_None_iff)
    with Cons.prems a have "(p, als) \<in> set props" by auto
    then have "scanProps ss props \<noteq> None"
      using Cons.prems(2,3) by (rule Cons.IH)
    with None a show ?thesis by simp
  qed
qed

lemma findSensorIds_loop_keeps:
  "m role \<noteq> None \<Longrightarrow> findSensorIds_loop ss spec m role \<noteq> None"
  by (induction spec arbitrary: m) (auto split: option.splits)

lemma findSensorIds_loop_matched:
  "(role, props) \<in> set spec \<Longrightarrow> scanProps ss props \<noteq> None \<Longrightarrow>
   findSensorIds_loop ss spec m role \<noteq> None"
proof (induction spec arbitrary: m)
  case Nil
  then show ?case by simp
next
  case (Cons a spec)
  obtain r ps where a: "a = (r, ps)" by (cases a) auto
  show ?case
  proof (cases "(role, props) \<in> set spec")
    case True
    then have "findSensorIds_loop ss spec m' role \<noteq> None" for m'
      using Cons.prems(2) by (rule Cons.IH)
    with a show ?thesis by simp
  next
    case False
    with Cons.prems a have e: "r = role" "ps = props" by auto
    with Cons.prems(2) obtain i where "scanProps ss ps = Some i" by auto
    with e a show ?thesis
      by (simp add: findSensorIds_loop_keeps)
  qed
qed

text \<open>
  C6. A role for which no attribute of any sensor matches (no value is there and equal up
  to case to an alias) is absent from the mapping that \<open>findSensorIds\<close> returns; the
  function returns a mapping in every case, there is no error. A role that some sensor
  does match is in the mapping. For the sensors
  \<open>[{id: 'a', title: 'Humidity'}, {id: 'b', title: 'Pressure'}]\<close> and the spec
  \<open>{humidity: {title: ['humidity']}, temperature: {title: ['temp']}}\<close> the mapping is
  exactly \<open>{humidity: 'a'}\<close>.
\<close>

theorem findSensorIds_unmatched_role_absent:
  "(\<forall>props p als s. (role, props) \<in> set spec \<and> (p, als) \<in> set props \<and> s \<in> set ss
        \<longrightarrow> \<not> matchesAlias s p als) \<Longrightarrow>
   role \<notin> dom (findSensorIds ss spec)
   \<and> ((role', props') \<in> set spec \<and> (p', als') \<in> set props' \<and> s' \<in> set ss \<and> matchesAlias s' p' als'
        \<longrightarrow> role' \<in> dom (findSensorIds ss spec))
   \<and> findSensorIds
        [\<lparr>oid = ''a'', attrs = [''title'' \<mapsto> ''Humidity'']\<rparr>,
         \<lparr>oid = ''b'', attrs = [''title'' \<mapsto> ''Pressure'']\<rparr>]
        [(''humidity'', [(''title'', [''humidity''])]), (''temperature'', [(''title'', [''temp''])])]
      = [''humidity'' \<mapsto> ''a'']"
proof -
  assume a: "\<forall>props p als s. (role, props) \<in> set spec \<and> (p, als) \<in> set props \<and> s \<in> set ss
        \<longrightarrow> \<not> matchesAlias s p als"
  have "scanProps ss props = None" if "(role, props) \<in> set spec" for props
    using a that by (intro scanProps_None) blast
  then have "findSensorIds_loop ss spec Map.empty role = None"
    by (simp add: findSensorIds_loop_unmatched)
  then have 1: "role \<notin> dom (findSensorIds ss spec)"
    by (simp add: findSensorIds_def domIff)
  have 2: "role' \<in> dom (findSensorIds ss spec)"
    if "(role', props') \<in> set spec \<and> (p', als') \<in> set props' \<and> s' \<in> set ss \<and> matchesAlias s' p' als'"
  proof -
    from that have "scanProps ss props' \<noteq> None"
      by (intro scanProps_matched [of p' als' props' s' ss]) simp_all
    with that have "findSensorIds_loop ss spec Map.empty role' \<noteq> None"
      by (intro findSensorIds_loop_matched [of role' props']) simp_all
    then show ?thesis
      by (simp add: findSensorIds_def domIff)
  qed
  have 3: "findSensorIds
        [\<lparr>oid = ''a'', attrs = [''title'' \<mapsto> ''Humidity'']\<rparr>,
         \<lparr>oid = ''b'', attrs = [''title'' \<mapsto> ''Pressure'']\<rparr>]
        [(''humidity'', [(''title'', [''humidity''])]), (''temperature'', [(''title'', [''temp''])])]
      = [''humidity'' \<mapsto> ''a'']"
    by (simp add: findSensorIds_def sensorAt_def toLowerCase_def lowerChar_def char_of_eq_iff)
  from 1 2 3 show ?thesis by blast
qed

theorem findSensorIds_unmatched_role_absent_witness:
  "\<not> matchesAlias \<lparr>oid = ''a'', attrs = [''title'' \<mapsto> ''Humidity'']\<rparr> ''title'' [''temp'']
   \<and> \<not> matchesAlias \<lparr>oid = ''b'', attrs = [''title'' \<mapsto> ''Pressure'']\<rparr> ''title'' [''temp'']
   \<and> ''temperature'' \<notin> dom (findSensorIds
        [\<lparr>oid = ''a'', attrs = [''title'' \<mapsto> ''Humidity'']\<rparr>,
         \<lparr>oid = ''b'', attrs = [''title'' \<mapsto> ''Pressure'']\<rparr>]
        [(''humidity'', [(''title'', [''humidity''])]), (''temperature'', [(''title'', [''temp''])])])
   \<and> findSensorIds
        [\<lparr>oid = ''a'', attrs = [''title'' \<mapsto> ''Humidity'']\<rparr>,
         \<lparr>oid = ''b'', attrs = [''title'' \<mapsto> ''Pressure'']\<rparr>]
        [(''humidity'', [(''title'', [''humidity''])]), (''temperature'', [(''title'', [''temp''])])]
        ''humidity'' = Some ''a''
   \<and> matchesAlias \<lparr>oid = ''a'', attrs = [''title'' \<mapsto> ''BELEUCHTUNGSST'' @ [CHR 0xC4] @ ''RKE'']\<rparr>
        ''title'' [''beleuchtungsst'' @ [CHR 0xE4] @ ''rke'']
   \<and> findSensorIds
        [\<lparr>oid = ''a'', attrs = [''title'' \<mapsto> ''BELEUCHTUNGSST'' @ [CHR 0xC4] @ ''RKE'']\<rparr>]
        [(''light'', [(''title'', [''beleuchtungsst'' @ [CHR 0xE4] @ ''rke''])])]
      = [''light'' \<mapsto> ''a'']"
proof -
  let ?ss = "[\<lparr>oid = ''a'', attrs = [''title'' \<mapsto> ''Humidity'']\<rparr>,
         \<lparr>oid = ''b'', attrs = [''title'' \<mapsto> ''Pressure'']\<rparr>]"
  let ?spec = "[(''humidity'', [(''title'', [''humidity''])]), (''temperature'', [(''title'', [''temp''])])]"
  have ma: "\<not> matchesAlias \<lparr>oid = ''a'', attrs = [''title'' \<mapsto> ''Humidity'']\<rparr> ''title'' [''temp'']"
    by (simp add: matchesAlias_def sensorAt_def equalIgnoringCase_def sameLetter_def)
  have mb: "\<not> matchesAlias \<lparr>oid = ''b'', attrs = [''title'' \<mapsto> ''Pressure'']\<rparr> ''title'' [''temp'']"
    by (simp add: matchesAlias_def sensorAt_def equalIgnoringCase_def sameLetter_def)
  have h: "\<forall>props p als s. (''temperature'', props) \<in> set ?spec \<and> (p, als) \<in> set props \<and> s \<in> set ?ss
        \<longrightarrow> \<not> matchesAlias s p als"
    using ma mb by auto
  note t = findSensorIds_unmatched_role_absent [OF h]
  from t have 1: "''temperature'' \<notin> dom (findSensorIds ?ss ?spec)" by (rule conjunct1)
  have "findSensorIds ?ss ?spec = [''humidity'' \<mapsto> ''a'']"
    by (rule t [THEN conjunct2, THEN conjunct2])
  then have 2: "findSensorIds ?ss ?spec ''humidity'' = Some ''a''" by simp
  have 3: "matchesAlias \<lparr>oid = ''a'', attrs = [''title'' \<mapsto> ''BELEUCHTUNGSST'' @ [CHR 0xC4] @ ''RKE'']\<rparr>
        ''title'' [''beleuchtungsst'' @ [CHR 0xE4] @ ''rke'']"
    by (simp add: matchesAlias_def sensorAt_def equalIgnoringCase_def sameLetter_def)
  have 4: "findSensorIds
        [\<lparr>oid = ''a'', attrs = [''title'' \<mapsto> ''BELEUCHTUNGSST'' @ [CHR 0xC4] @ ''RKE'']\<rparr>]
        [(''light'', [(''title'', [''beleuchtungsst'' @ [CHR 0xE4] @ ''rke''])])]
      = [''light'' \<mapsto> ''a'']"
    by (simp add: findSensorIds_def sensorAt_def toLowerCase_def lowerChar_def char_of_eq_iff)
  from ma mb 1 2 3 4 show ?thesis by (intro conjI)
qed

section \<open>findSensorIds: roles are resolved independently\<close>

lemma scanSensors_skip_falsy:
  "sensorAt s p = None \<or> sensorAt s p = Some [] \<Longrightarrow>
   scanSensors aliases p (pre @ s # post) = scanSensors aliases p (pre @ post)"
  by (induction pre) (auto split: option.splits)

text \<open>
  C10. \<open>findSensorIds\<close> never takes a matched sensor out of the search for later roles:
  the entry of a role is what the role alone would get on the full sensor list, whatever
  the other roles of the spec are and whatever they matched, so that two roles can be
  mapped to the same sensor (here \<open>humidity\<close> and \<open>temperature\<close> both to sensor \<open>a\<close>). A
  sensor whose value for the attribute in question is missing or empty is passed over in
  the scan for that attribute, as if it were not in the list; it raises no error.
\<close>

theorem findSensorIds_roles_independent:
  "distinct (map fst spec) \<Longrightarrow> (role, props) \<in> set spec \<Longrightarrow>
   findSensorIds ss spec role = findSensorIds ss [(role, props)] role
   \<and> (sensorAt s p = None \<or> sensorAt s p = Some [] \<longrightarrow>
        scanSensors aliases p (pre @ s # post) = scanSensors aliases p (pre @ post))
   \<and> findSensorIds
        [\<lparr>oid = ''a'', attrs = [''title'' \<mapsto> ''Temp + Humidity'']\<rparr>]
        [(''humidity'', [(''title'', [''temp + humidity''])]),
         (''temperature'', [(''title'', [''temp + humidity''])])]
      = [''humidity'' \<mapsto> ''a'', ''temperature'' \<mapsto> ''a'']"
proof -
  assume d: "distinct (map fst spec)" and r: "(role, props) \<in> set spec"
  have "findSensorIds ss spec role = resolveRole ss props"
    using d r by (rule findSensorIds_role)
  moreover have "findSensorIds ss [(role, props)] role = resolveRole ss props"
    by (rule findSensorIds_role) simp_all
  ultimately have 1: "findSensorIds ss spec role = findSensorIds ss [(role, props)] role"
    by simp
  have 2: "sensorAt s p = None \<or> sensorAt s p = Some [] \<longrightarrow>
        scanSensors aliases p (pre @ s # post) = scanSensors aliases p (pre @ post)"
    by (rule impI) (rule scanSensors_skip_falsy)
  have 3: "findSensorIds
        [\<lparr>oid = ''a'', attrs = [''title'' \<mapsto> ''Temp + Humidity'']\<rparr>]
        [(''humidity'', [(''title'', [''temp + humidity''])]),
         (''temperature'', [(''title'', [''temp + humidity''])])]
      = [''humidity'' \<mapsto> ''a'', ''temperature'' \<mapsto> ''a'']"
    by (simp add: findSensorIds_def sensorAt_def toLowerCase_def lowerChar_def char_of_eq_iff)
  from 1 2 3 show ?thesis by (intro conjI)
qed

theorem findSensorIds_roles_independent_witness:
  "distinct (map fst exampleMatchings)
   \<and> findSensorIds exampleSensors exampleMatchings ''pressure''
      = findSensorIds exampleSensors [(''pressure'', [(''title'', [''luftdruck'', ''druck'', ''pressure''])])] ''pressure''
   \<and> findSensorIds exampleSensors [(''pressure'', [(''title'', [''luftdruck'', ''druck'', ''pressure''])])] ''pressure''
      = Some ''a''
   \<and> sensorAt (exampleSensors ! 1) ''sensorType'' = None
   \<and> scanSensors [''hdc1008''] ''sensorType'' ([] @ exampleSensors ! 1 # [exampleSensors ! 0])
      = scanSensors [''hdc1008''] ''sensorType'' ([] @ [exampleSensors ! 0])
   \<and> scanSensors [''hdc1008''] ''sensorType'' [exampleSensors ! 1, exampleSensors ! 0] = Some ''a''"
proof -
  have d: "distinct (map fst exampleMatchings)"
    by (simp add: exampleMatchings_def)
  have r: "(''pressure'', [(''title'', [''luftdruck'', ''druck'', ''pressure''])]) \<in> set exampleMatchings"
    by (simp add: exampleMatchings_def)
  note t = findSensorIds_roles_independent [OF d r, of exampleSensors "exampleSensors ! 1" "''sensorType''"
      "[''hdc1008'']" "[]" "[exampleSensors ! 0]"]
  from t have 1: "findSensorIds exampleSensors exampleMatchings ''pressure''
      = findSensorIds exampleSensors [(''pressure'', [(''title'', [''luftdruck'', ''druck'', ''pressure''])])] ''pressure''"
    by (rule conjunct1)
  have 2: "findSensorIds exampleSensors [(''pressure'', [(''title'', [''luftdruck'', ''druck'', ''pressure''])])] ''pressure''
      = Some ''a''"
    by (simp add: findSensorIds_def exampleSensors_def sensorAt_def toLowerCase_def lowerChar_def char_of_eq_iff)
  have 3: "sensorAt (exampleSensors ! 1) ''sensorType'' = None"
    by (simp add: exampleSensors_def sensorAt_def)
  from t have "sensorAt (exampleSensors ! 1) ''sensorType'' = None
        \<or> sensorAt (exampleSensors ! 1) ''sensorType'' = Some [] \<longrightarrow>
      scanSensors [''hdc1008''] ''sensorType'' ([] @ exampleSensors ! 1 # [exampleSensors ! 0])
      = scanSensors [''hdc1008''] ''sensorType'' ([] @ [exampleSensors ! 0])"
    by (elim conjE)
  with 3 have 4: "scanSensors [''hdc1008''] ''sensorType'' ([] @ exampleSensors ! 1 # [exampleSensors ! 0])
      = scanSensors [''hdc1008''] ''sensorType'' ([] @ [exampleSensors ! 0])"
    by simp
  have 5: "scanSensors [''hdc1008''] ''sensorType'' [exampleSensors ! 1, exampleSensors ! 0] = Some ''a''"
    by (simp add: exampleSensors_def sensorAt_def toLowerCase_def lowerChar_def char_of_eq_iff)
  from d 1 2 3 4 5 show ?thesis by (intro conjI)
qed

end
